theory Spec2Isabelle
  imports Complex_Main
begin

section \<open>Python and torch values\<close>

text \<open>
  The head works on dense tensors.  A tensor is modelled by its shape and its element
  function on full index vectors; elements outside the shape are never read, because
  every access of the source goes through \<open>getitem\<close> / \<open>setitem\<close>, which raise
  \<open>IndexError\<close> exactly where torch does.  Float tensors hold reals, and the tensor
  arithmetic of torch on them (softmax, the cross-entropy, the mean) is exact in the
  model: its float32 rounding and its infinities are not modelled, and no theorem below
  speaks about them.  The one NaN the source produces by itself, the mean of a tensor
  without elements, is a value of its own.  The one float computation that decides an
  index, the Python product \<open>i[3].item() * H\<close> of line 171, is rounded as float64
  arithmetic rounds it.  Integer tensors (int64) hold unbounded integers; the values
  stored are class ids and cell counts.
\<close>

datatype error = IndexError | ValueError | RuntimeError | AttributeError | ZeroDivisionError

fun bindE :: "error + 'a \<Rightarrow> ('a \<Rightarrow> error + 'b) \<Rightarrow> error + 'b" where
  "bindE (Inl e) f = Inl e"
| "bindE (Inr x) f = f x"

text \<open>A \<open>for\<close> loop whose body may raise: the first exception ends the loop.\<close>

fun foldE :: "('s \<Rightarrow> 'a \<Rightarrow> error + 's) \<Rightarrow> 's \<Rightarrow> 'a list \<Rightarrow> error + 's" where
  "foldE f s [] = Inr s"
| "foldE f s (x # xs) = bindE (f s x) (\<lambda>s'. foldE f s' xs)"

record 'a tensor =
  shape :: "nat list"
  data :: "nat list \<Rightarrow> 'a"

text \<open>\<open>int(x)\<close> on a float: truncation towards zero.\<close>

definition py_int :: "real \<Rightarrow> int" where
  "py_int x = (if 0 \<le> x then \<lfloor>x\<rfloor> else \<lceil>x\<rceil>)"

text \<open>Python floats are IEEE 754 binary64 numbers, and \<open>a * b\<close> on two of them is the
  exact product rounded to the nearest number with a significand of 53 bits, a tie going
  to the even significand.  \<open>\<lfloor>log 2 \<bar>x\<bar>\<rfloor>\<close> is the binary exponent of \<open>x\<close> and \<open>u\<close> the
  distance between neighbouring floats of that exponent.  The exponent range is not
  modelled: there is neither overflow nor underflow, and the products of a fraction and a
  grid size are far from both.  An \<open>int\<close> operand is converted first, exactly for every
  size below \<open>2^53\<close>.\<close>

definition round_half_even :: "real \<Rightarrow> int" where
  "round_half_even x =
     (let f = \<lfloor>x\<rfloor>; d = x - of_int f in
      if d < 1 / 2 then f else if 1 / 2 < d then f + 1 else if even f then f else f + 1)"

definition float64_round :: "real \<Rightarrow> real" where
  "float64_round x =
     (if x = 0 then 0
      else let e = \<lfloor>log 2 \<bar>x\<bar>\<rfloor>; u = 2 powr (of_int e - 52) in
        of_int (round_half_even (x / u)) * u)"

definition float64_mul :: "real \<Rightarrow> real \<Rightarrow> real" where
  "float64_mul a b = float64_round (a * b)"

text \<open>A real is a float64 number when the rounding leaves it as it is.\<close>

definition is_float64 :: "real \<Rightarrow> bool" where
  "is_float64 x = (float64_round x = x)"

text \<open>One coordinate of an index: a negative index counts from the end, anything
  outside \<open>[-n, n)\<close> raises.\<close>

definition py_index :: "nat \<Rightarrow> int \<Rightarrow> error + nat" where
  "py_index n i =
     (if 0 \<le> i \<and> i < int n then Inr (nat i)
      else if - int n \<le> i \<and> i < 0 then Inr (nat (i + int n))
      else Inl IndexError)"

text \<open>A full index vector against a shape (the source always indexes every axis).\<close>

fun py_indices :: "nat list \<Rightarrow> int list \<Rightarrow> error + nat list" where
  "py_indices [] [] = Inr []"
| "py_indices (d # ds) (i # js) =
     bindE (py_index d i) (\<lambda>n. bindE (py_indices ds js) (\<lambda>ns. Inr (n # ns)))"
| "py_indices _ _ = Inl IndexError"

definition getitem :: "'a tensor \<Rightarrow> int list \<Rightarrow> error + 'a" where
  "getitem t idx = bindE (py_indices (shape t) idx) (\<lambda>n. Inr (data t n))"

definition setitem :: "'a tensor \<Rightarrow> int list \<Rightarrow> 'a \<Rightarrow> error + 'a tensor" where
  "setitem t idx v =
     bindE (py_indices (shape t) idx) (\<lambda>n. Inr (t\<lparr>data := (data t)(n := v)\<rparr>))"

text \<open>The index vectors of a shape in row-major order: the order of \<open>flatten\<close> and of
  \<open>torch.where\<close>.\<close>

fun indices :: "nat list \<Rightarrow> nat list list" where
  "indices [] = [[]]"
| "indices (d # ds) = concat (map (\<lambda>i. map ((#) i) (indices ds)) [0..<d])"

definition in_bounds :: "nat list \<Rightarrow> nat list \<Rightarrow> bool" where
  "in_bounds shp idx = list_all2 (<) idx shp"

definition flatten :: "'a tensor \<Rightarrow> 'a list" where
  "flatten t = map (data t) (indices (shape t))"

section \<open>build_target\<close>

text \<open>A row \<open>i\<close> of the labels tensor: \<open>i[0]\<close> image index, \<open>i[1]\<close> class id,
  \<open>i[2]\<close> and \<open>i[3]\<close> the centre as fractions of the image width and height.\<close>

record label =
  image_index :: real
  class_id :: real
  x_fraction :: real
  y_fraction :: real

text \<open>\<open>torch.zeros(size=(B, H, W, C))\<close> followed by \<open>target_data[..., 0] = 1\<close>.\<close>

definition zeros :: "nat list \<Rightarrow> 'a::zero tensor" where
  "zeros shp = \<lparr>shape = shp, data = (\<lambda>_. 0)\<rparr>"

definition fill_channel0 :: "real tensor \<Rightarrow> real \<Rightarrow> error + real tensor" where
  "fill_channel0 t v =
     (if shape t = [] \<or> last (shape t) = 0 then Inl IndexError
      else Inr (t\<lparr>data := (\<lambda>idx. if last idx = 0 then v else data t idx)\<rparr>))"

text \<open>The body of the loop over the labels: two indexed stores.  The fields of a label
  are the float64 values that \<open>.item()\<close> gives, and the two products are float64
  products.\<close>

definition mark_label :: "nat \<Rightarrow> nat \<Rightarrow> real tensor \<Rightarrow> label \<Rightarrow> error + real tensor" where
  "mark_label H W target_data i =
     (let h = py_int (float64_mul (y_fraction i) (real H));
          w = py_int (float64_mul (x_fraction i) (real W)) in
      bindE (setitem target_data [py_int (image_index i), h, w, 0] 0) (\<lambda>td.
      setitem td [py_int (image_index i), h, w, py_int (class_id i)] 1))"

definition build_target :: "'a tensor \<Rightarrow> label list \<Rightarrow> error + real tensor" where
  "build_target preds targets =
     (case shape preds of
        [B, H, W, C] \<Rightarrow>
          bindE (fill_channel0 (zeros [B, H, W, C]) 1) (\<lambda>target_data.
          foldE (mark_label H W) target_data targets)
      | _ \<Rightarrow> Inl ValueError)"

text \<open>The channel vector of a cell, \<open>t[b, h, w, :]\<close>, and what it means for it to be
  one-hot.\<close>

definition cell_vector :: "'a tensor \<Rightarrow> nat list \<Rightarrow> 'a list" where
  "cell_vector t cell = map (\<lambda>c. data t (cell @ [c])) [0..<last (shape t)]"

definition one_hot :: "real list \<Rightarrow> bool" where
  "one_hot v = (length (filter (\<lambda>x. x = 1) v) = 1 \<and> list_all (\<lambda>x. x = 0 \<or> x = 1) v)"

text \<open>The cell a label is written to, as the two stores resolve it (a negative index
  counts from the end, an index out of range raises).\<close>

definition label_cell :: "nat list \<Rightarrow> label \<Rightarrow> error + nat list" where
  "label_cell shp i =
     py_indices (take 3 shp)
       [py_int (image_index i), py_int (float64_mul (y_fraction i) (real (shp ! 1))),
        py_int (float64_mul (x_fraction i) (real (shp ! 2)))]"

text \<open>The specification's reading of a well-formed label and of its cell
  \<open>(batch_index, floor(y_center_fraction * H), floor(x_center_fraction * W))\<close>.\<close>

definition valid_label :: "nat \<Rightarrow> nat \<Rightarrow> label \<Rightarrow> bool" where
  "valid_label B C i =
     (0 \<le> image_index i \<and> image_index i < real B \<and>
      1 \<le> class_id i \<and> class_id i < real C \<and>
      0 \<le> x_fraction i \<and> x_fraction i < 1 \<and>
      0 \<le> y_fraction i \<and> y_fraction i < 1)"

definition spec_cell :: "nat \<Rightarrow> nat \<Rightarrow> label \<Rightarrow> nat list" where
  "spec_cell H W i =
     [nat \<lfloor>image_index i\<rfloor>, nat \<lfloor>y_fraction i * real H\<rfloor>, nat \<lfloor>x_fraction i * real W\<rfloor>]"

text \<open>The two products of a label are exact when the float64 product is the product of
  the reals.  This is the case for every label read from a float32 tensor and every grid
  size below \<open>2^29\<close>: a significand of 24 bits times such a size fits into 53 bits.\<close>

definition exact_products :: "nat \<Rightarrow> nat \<Rightarrow> label \<Rightarrow> bool" where
  "exact_products H W i =
     (float64_mul (y_fraction i) (real H) = y_fraction i * real H \<and>
      float64_mul (x_fraction i) (real W) = x_fraction i * real W)"

section \<open>get_pricsion_recall_f1\<close>

text \<open>\<open>torch.softmax(preds, dim=-1)\<close>, as the function of the reals it computes.  torch
  evaluates it in float32, where two different logits of a cell can get one rounded
  probability; the rounding is not modelled, so whatever is proved below about a
  prediction map is stated on the class grid taken after this softmax, or on inputs whose
  logits differ by 1 or more.\<close>

definition softmax_last :: "real tensor \<Rightarrow> real tensor" where
  "softmax_last t =
     t\<lparr>data := (\<lambda>idx. exp (data t idx) /
        sum_list (map (\<lambda>c. exp (data t (butlast idx @ [c]))) [0..<last (shape t)]))\<rparr>"

text \<open>\<open>torch.argmax(t, dim=-1)\<close>: the index of the first maximal value of each cell.
  The running maximum is replaced only by a strictly larger value.  An axis of size 0
  cannot be reduced; a tensor without axes is not a prediction map and is rejected
  too.\<close>

fun argmax_from :: "real list \<Rightarrow> nat \<Rightarrow> real \<Rightarrow> nat \<Rightarrow> nat" where
  "argmax_from [] k best bi = bi"
| "argmax_from (x # xs) k best bi =
     (if best < x then argmax_from xs (Suc k) x k else argmax_from xs (Suc k) best bi)"

definition argmax_list :: "real list \<Rightarrow> nat" where
  "argmax_list v = (case v of [] \<Rightarrow> 0 | x # xs \<Rightarrow> argmax_from xs 1 x 0)"

definition argmax_last :: "real tensor \<Rightarrow> error + int tensor" where
  "argmax_last t =
     (if shape t = [] \<or> last (shape t) = 0 then Inl IndexError
      else Inr \<lparr>shape = butlast (shape t),
                data = (\<lambda>idx. int (argmax_list (cell_vector t idx)))\<rparr>)"

text \<open>\<open>torch.stack(torch.where(t > 0), dim=1)\<close>: the index vectors of the positive
  entries, as rows of an int64 tensor, in row-major order.\<close>

definition where_positive :: "int tensor \<Rightarrow> int list list" where
  "where_positive t = map (map int) (filter (\<lambda>idx. 0 < data t idx) (indices (shape t)))"

definition posit_offset :: "int list list" where
  "posit_offset =
     [[0, -1, 0], [0, -1, -1], [0, 0, -1], [0, 1, 0], [0, 1, 1],
      [0, 0, 1], [0, 1, -1], [0, -1, 1], [0, 0, 0]]"

text \<open>\<open>ti + po\<close> on two vectors, and \<open>site in preds_index\<close>.  The latter is
  \<open>Tensor.__contains__\<close>, that is \<open>(site == preds_index).any()\<close>: the comparison is
  broadcast over the rows and is element-wise, so one equal coordinate in one row is
  enough.  The cell, the offset and the rows have three entries each in every call of
  the source.\<close>

definition vec_add :: "int list \<Rightarrow> int list \<Rightarrow> error + int list" where
  "vec_add u v = (if length u = length v then Inr (map2 (+) u v) else Inl RuntimeError)"

definition tensor_contains :: "int list list \<Rightarrow> int list \<Rightarrow> bool" where
  "tensor_contains rows site =
     list_ex (\<lambda>row. list_ex (\<lambda>(a, b). a = b) (zip site row)) rows"

text \<open>The body of the inner loop, for one true object cell \<open>ti\<close> and one offset
  \<open>po\<close>; the state is the pair of class grids, both mutated in place.\<close>

definition match_site ::
  "int list list \<Rightarrow> int list \<Rightarrow> int tensor \<times> int tensor \<Rightarrow> int list \<Rightarrow>
     error + int tensor \<times> int tensor" where
  "match_site preds_index ti st po =
     (case st of (preds_max, target_max) \<Rightarrow>
      bindE (vec_add ti po) (\<lambda>site.
        if list_ex (\<lambda>x. x < 0) site \<or> list_ex (\<lambda>x. 11 < x) site
        then Inr (preds_max, target_max)
        else if tensor_contains preds_index site then
          bindE (getitem preds_max site) (\<lambda>p.
          bindE (getitem target_max ti) (\<lambda>t.
            if p = t then
              bindE (getitem target_max ti) (\<lambda>v.
              bindE (setitem preds_max site v) (\<lambda>preds_max'.
              bindE (getitem target_max ti) (\<lambda>v'.
              bindE (setitem target_max site v') (\<lambda>target_max'.
              Inr (preds_max', target_max')))))
            else Inr (preds_max, target_max)))
        else Inr (preds_max, target_max)))"

definition match_cell ::
  "int list list \<Rightarrow> int tensor \<times> int tensor \<Rightarrow> int list \<Rightarrow>
     error + int tensor \<times> int tensor" where
  "match_cell preds_index st ti = foldE (match_site preds_index ti) st posit_offset"

definition tolerant_matching ::
  "int tensor \<Rightarrow> int tensor \<Rightarrow> error + int tensor \<times> int tensor" where
  "tolerant_matching preds_max target_max =
     (let target_index = where_positive target_max;
          preds_index = where_positive preds_max
      in foldE (match_cell preds_index) (preds_max, target_max) target_index)"

text \<open>\<open>sklearn.metrics.confusion_matrix(y_true, y_pred, labels=...)\<close>: entry \<open>[i, j]\<close>
  counts the samples with true label \<open>labels[i]\<close> and predicted label \<open>labels[j]\<close>;
  samples with a label outside \<open>labels\<close> are not counted.  It raises \<open>ValueError\<close> when
  the two lists differ in length, when \<open>labels\<close> is empty and when no true label is among
  \<open>labels\<close>; without samples the matrix is all zeros.\<close>

definition confusion_matrix :: "int list \<Rightarrow> int list \<Rightarrow> int list \<Rightarrow> error + int tensor" where
  "confusion_matrix y_true y_pred labels =
     (let n = length labels in
      if length y_true \<noteq> length y_pred then Inl ValueError
      else if n = 0 then Inl ValueError
      else if y_true = [] then Inr (zeros [n, n])
      else if \<not> list_ex (\<lambda>y. y \<in> set labels) y_true then Inl ValueError
      else Inr \<lparr>shape = [n, n],
                data = (\<lambda>idx. int (length (filter
                  (\<lambda>(t, p). t = labels ! (idx ! 0) \<and> p = labels ! (idx ! 1))
                  (zip y_true y_pred))))\<rparr>)"

text \<open>numpy on the confusion matrix.\<close>

definition np_diagonal :: "int tensor \<Rightarrow> int list" where
  "np_diagonal a = map (\<lambda>i. data a [i, i]) [0..<min (shape a ! 0) (shape a ! 1)]"

definition np_tril :: "int tensor \<Rightarrow> int \<Rightarrow> int tensor" where
  "np_tril a k = a\<lparr>data := (\<lambda>idx. if int (idx ! 1) \<le> int (idx ! 0) + k then data a idx else 0)\<rparr>"

definition np_triu :: "int tensor \<Rightarrow> int \<Rightarrow> int tensor" where
  "np_triu a k = a\<lparr>data := (\<lambda>idx. if int (idx ! 0) + k \<le> int (idx ! 1) then data a idx else 0)\<rparr>"

definition np_sum :: "int tensor \<Rightarrow> int" where
  "np_sum a = sum_list (flatten a)"

text \<open>Division, with the zero divisor as an error value, so that the guard of the
  source is visible in the model.\<close>

definition true_div :: "real \<Rightarrow> real \<Rightarrow> error + real" where
  "true_div a b = (if b = 0 then Inl ZeroDivisionError else Inr (a / b))"

text \<open>Lines 151 to 163: precision, recall and F1 from the confusion matrix.\<close>

definition metrics_of_confusion :: "int tensor \<Rightarrow> error + real \<times> real \<times> real" where
  "metrics_of_confusion confusion =
     bindE (getitem confusion [0, 0]) (\<lambda>tn.
       let tp = sum_list (np_diagonal confusion) - tn;
           fn = np_sum (np_tril confusion (- 1));
           fp = np_sum (np_triu confusion 1)
       in if tp + fp = 0 \<or> tp + fn = 0 then Inr (0, 0, 0)
          else
            bindE (true_div (real_of_int tp) (real_of_int (tp + fp))) (\<lambda>p.
            bindE (true_div (real_of_int tp) (real_of_int (tp + fn))) (\<lambda>r.
            bindE (if p + r \<noteq> 0 then true_div (2 * (p * r)) (p + r) else Inr 0) (\<lambda>f1.
            Inr (p, r, f1)))))"

definition num_attrib :: "nat \<Rightarrow> nat" where
  "num_attrib nc = nc + 1"

text \<open>Lines 126 to 149: from the two class grids to the confusion matrix.\<close>

definition confusion_of_grids :: "nat \<Rightarrow> int tensor \<Rightarrow> int tensor \<Rightarrow> error + int tensor" where
  "confusion_of_grids nc preds_max target_max =
     bindE (tolerant_matching preds_max target_max) (\<lambda>(preds_max', target_max').
     confusion_matrix (flatten target_max') (flatten preds_max')
       (map int [0..<num_attrib nc]))"

definition metrics_of_grids :: "nat \<Rightarrow> int tensor \<Rightarrow> int tensor \<Rightarrow> error + real \<times> real \<times> real" where
  "metrics_of_grids nc preds_max target_max =
     bindE (confusion_of_grids nc preds_max target_max) metrics_of_confusion"

definition get_pricsion_recall_f1 ::
  "nat \<Rightarrow> real tensor \<Rightarrow> real tensor \<Rightarrow> error + real \<times> real \<times> real" where
  "get_pricsion_recall_f1 nc preds target =
     (let preds' = softmax_last preds in
      bindE (argmax_last target) (\<lambda>target_max.
      bindE (argmax_last preds') (\<lambda>preds_max.
      metrics_of_grids nc preds_max target_max)))"

text \<open>The specification's reading of the counts and of the metrics: \<open>tn\<close> is entry
  \<open>[0][0]\<close>, \<open>tp\<close> the sum of the diagonal minus \<open>tn\<close>, \<open>fn\<close> the sum of the entries
  strictly below the diagonal, \<open>fp\<close> the sum of those strictly above it.\<close>

definition spec_tn :: "int tensor \<Rightarrow> int" where
  "spec_tn confusion = data confusion [0, 0]"

definition spec_tp :: "nat \<Rightarrow> int tensor \<Rightarrow> int" where
  "spec_tp n confusion = (\<Sum>i<n. data confusion [i, i]) - spec_tn confusion"

definition spec_fn :: "nat \<Rightarrow> int tensor \<Rightarrow> int" where
  "spec_fn n confusion = (\<Sum>i<n. \<Sum>j<i. data confusion [i, j])"

definition spec_fp :: "nat \<Rightarrow> int tensor \<Rightarrow> int" where
  "spec_fp n confusion = (\<Sum>i<n. \<Sum>j\<in>{i<..<n}. data confusion [i, j])"

definition spec_metrics :: "nat \<Rightarrow> int tensor \<Rightarrow> real \<times> real \<times> real" where
  "spec_metrics n confusion =
     (let tp = spec_tp n confusion; fn = spec_fn n confusion; fp = spec_fp n confusion in
      if tp + fp = 0 \<or> tp + fn = 0 then (0, 0, 0)
      else
        (let p = real_of_int tp / real_of_int (tp + fp);
             r = real_of_int tp / real_of_int (tp + fn)
         in (p, r, if p + r = 0 then 0 else 2 * p * r / (p + r))))"

text \<open>The number of cells of a grid of shape \<open>shp\<close> that satisfy \<open>P\<close>.\<close>

definition count_cells :: "nat list \<Rightarrow> (nat list \<Rightarrow> bool) \<Rightarrow> int" where
  "count_cells shp P = int (length (filter P (indices shp)))"

section \<open>lossFunction\<close>

text \<open>The head as the methods below read it: \<open>self.num_classes\<close> and the
  \<open>cls_weight\<close> the constructor puts into \<open>self.loss_cls\<close>.\<close>

record fomo_head =
  num_classes :: nat
  cls_weight :: real

text \<open>\<open>nn.BCEWithLogitsLoss(reduction='none', pos_weight=...)\<close>, element by element,
  in the form torch evaluates it for a logit \<open>x\<close>, a target \<open>y\<close> and a positive weight
  \<open>w\<close>: \<open>(1 - y) * x - log_weight * log_sigmoid(x)\<close> with
  \<open>log_weight = (w - 1) * y + 1\<close> and
  \<open>log_sigmoid(x) = min(x, 0) - log1p(exp(-|x|))\<close>.  Without a positive weight \<open>w\<close> is 1.
  Input and target must have one shape.\<close>

definition log_sigmoid :: "real \<Rightarrow> real" where
  "log_sigmoid x = min x 0 - ln (1 + exp (- \<bar>x\<bar>))"

definition bce_with_logits :: "real \<Rightarrow> real \<Rightarrow> real \<Rightarrow> real" where
  "bce_with_logits w x y = (1 - y) * x - ((w - 1) * y + 1) * log_sigmoid x"

definition BCEWithLogitsLoss ::
  "real option \<Rightarrow> real tensor \<Rightarrow> real tensor \<Rightarrow> error + real tensor" where
  "BCEWithLogitsLoss pos_weight input target =
     (if shape input \<noteq> shape target then Inl ValueError
      else Inr \<lparr>shape = shape input,
                data = (\<lambda>idx. bce_with_logits (case pos_weight of None \<Rightarrow> 1 | Some w \<Rightarrow> w)
                                 (data input idx) (data target idx))\<rparr>)"

definition loss_bg :: "fomo_head \<Rightarrow> real tensor \<Rightarrow> real tensor \<Rightarrow> error + real tensor" where
  "loss_bg self = BCEWithLogitsLoss None"

definition loss_cls :: "fomo_head \<Rightarrow> real tensor \<Rightarrow> real tensor \<Rightarrow> error + real tensor" where
  "loss_cls self = BCEWithLogitsLoss (Some (cls_weight self))"

text \<open>\<open>pred_maps.permute(0, 2, 3, 1)\<close>.\<close>

definition permute_0231 :: "'a tensor \<Rightarrow> error + 'a tensor" where
  "permute_0231 t =
     (case shape t of
        [d0, d1, d2, d3] \<Rightarrow>
          Inr \<lparr>shape = [d0, d2, d3, d1],
               data = (\<lambda>idx. data t [idx ! 0, idx ! 3, idx ! 1, idx ! 2])\<rparr>
      | _ \<Rightarrow> Inl RuntimeError)"

text \<open>\<open>torch.tile(weight, (H, W, 1))\<close> for a vector \<open>weight\<close>.\<close>

definition tile_HW1 :: "real tensor \<Rightarrow> nat \<Rightarrow> nat \<Rightarrow> real tensor" where
  "tile_HW1 weight H W = \<lparr>shape = [H, W, last (shape weight)], data = (\<lambda>idx. data weight [last idx])\<rparr>"

text \<open>\<open>a *= m\<close> with broadcasting: the shape of \<open>m\<close> is aligned with the trailing axes
  of \<open>a\<close>, and each of its axes has the size of the axis of \<open>a\<close> or size 1.\<close>

definition broadcastable :: "nat list \<Rightarrow> nat list \<Rightarrow> bool" where
  "broadcastable sa sm =
     (length sm \<le> length sa \<and>
      list_all2 (\<lambda>d dm. dm = d \<or> dm = 1) (drop (length sa - length sm) sa) sm)"

definition broadcast_index :: "nat list \<Rightarrow> nat list \<Rightarrow> nat list" where
  "broadcast_index sm idx =
     map2 (\<lambda>dm i. if dm = 1 then 0 else i) sm (drop (length idx - length sm) idx)"

definition imul :: "real tensor \<Rightarrow> real tensor \<Rightarrow> error + real tensor" where
  "imul a m =
     (if broadcastable (shape a) (shape m)
      then Inr (a\<lparr>data := (\<lambda>idx. data a idx * data m (broadcast_index (shape m) idx))\<rparr>)
      else Inl RuntimeError)"

text \<open>\<open>1.0 - m\<close>, \<open>a + b\<close> on tensors of one shape, and \<open>torch.mean\<close>, which is NaN
  on a tensor without elements.\<close>

definition rsub :: "real \<Rightarrow> real tensor \<Rightarrow> real tensor" where
  "rsub x m = m\<lparr>data := (\<lambda>idx. x - data m idx)\<rparr>"

definition tensor_add :: "real tensor \<Rightarrow> real tensor \<Rightarrow> error + real tensor" where
  "tensor_add a b =
     (if shape a = shape b then Inr (a\<lparr>data := (\<lambda>idx. data a idx + data b idx)\<rparr>)
      else Inl RuntimeError)"

datatype pyfloat = Float real | NaN

definition torch_mean :: "real tensor \<Rightarrow> pyfloat" where
  "torch_mean t =
     (let xs = flatten t in if xs = [] then NaN else Float (sum_list xs / real (length xs)))"

record loss_result =
  loss :: pyfloat
  fgnd :: "real tensor"
  bgnd :: "real tensor"
  P :: real
  R :: real
  F1 :: real

definition lossFunction :: "fomo_head \<Rightarrow> real tensor \<Rightarrow> label list \<Rightarrow> error + loss_result" where
  "lossFunction self pred_maps target =
     bindE (permute_0231 pred_maps) (\<lambda>preds.
     case shape preds of
       [B, H, W, C] \<Rightarrow>
         bindE (setitem (zeros [num_attrib (num_classes self)]) [0] 1) (\<lambda>weight.
         let weight_mask = tile_HW1 weight H W in
         bindE (build_target preds target) (\<lambda>data.
         bindE (loss_bg self preds data) (\<lambda>bg_loss.
         bindE (imul bg_loss weight_mask) (\<lambda>bg_loss.
         bindE (loss_cls self preds data) (\<lambda>cls_loss.
         bindE (imul cls_loss (rsub 1 weight_mask)) (\<lambda>cls_loss.
         bindE (tensor_add cls_loss bg_loss) (\<lambda>total.
         bindE (get_pricsion_recall_f1 (num_classes self) preds data) (\<lambda>(p, r, f1).
         Inr \<lparr>loss = torch_mean total, fgnd = cls_loss, bgnd = bg_loss,
               P = p, R = r, F1 = f1\<rparr>))))))))
     | _ \<Rightarrow> Inl ValueError)"

text \<open>The specification's reading of the total: the mean over all elements, that is
  their sum over all index tuples divided by their number.\<close>

definition spec_mean :: "nat \<Rightarrow> nat \<Rightarrow> nat \<Rightarrow> nat \<Rightarrow> (nat list \<Rightarrow> real) \<Rightarrow> pyfloat" where
  "spec_mean B H W C f =
     (if B * H * W * C = 0 then NaN
      else Float ((\<Sum>b<B. \<Sum>h<H. \<Sum>w<W. \<Sum>c<C. f [b, h, w, c]) / real (B * H * W * C)))"

section \<open>The constructor\<close>

text \<open>During construction the head is a Python object: a dictionary from attribute
  names to values.  Reading an attribute that is not there raises \<open>AttributeError\<close>.
  An exception carries the object as it was when it was raised.\<close>

datatype pyval =
    PInt int
  | PInts "int list"
  | POffsets "int list list"
  | PLoss "real option"

type_synonym pyobj = "string \<rightharpoonup> pyval"

fun bindS :: "(error \<times> 's) + 'a \<Rightarrow> ('a \<Rightarrow> (error \<times> 's) + 'b) \<Rightarrow> (error \<times> 's) + 'b" where
  "bindS (Inl e) f = Inl e"
| "bindS (Inr x) f = f x"

fun foldS :: "('s \<Rightarrow> 'a \<Rightarrow> (error \<times> 's) + 's) \<Rightarrow> 's \<Rightarrow> 'a list \<Rightarrow> (error \<times> 's) + 's" where
  "foldS f s [] = Inr s"
| "foldS f s (x # xs) = bindS (f s x) (\<lambda>s'. foldS f s' xs)"

definition getattr :: "pyobj \<Rightarrow> string \<Rightarrow> (error \<times> pyobj) + pyval" where
  "getattr self name = (case self name of None \<Rightarrow> Inl (AttributeError, self) | Some v \<Rightarrow> Inr v)"

text \<open>\<open>v[k] = w\<close> on the value of an attribute: a list is updated in range, and nothing
  else here supports item assignment.\<close>

definition setitem_val :: "pyobj \<Rightarrow> pyval \<Rightarrow> int \<Rightarrow> int \<Rightarrow> (error \<times> pyobj) + pyval" where
  "setitem_val self v k w =
     (case v of
        PInts xs \<Rightarrow>
          (case py_index (length xs) k of
             Inl e \<Rightarrow> Inl (e, self)
           | Inr n \<Rightarrow> Inr (PInts (xs[n := w])))
      | _ \<Rightarrow> Inl (RuntimeError, self))"

text \<open>The body of \<open>for idx, w in enumerate(loss_weight): self.weight_cls[idx + 1] = w\<close>.\<close>

definition override_weight :: "pyobj \<Rightarrow> nat \<times> int \<Rightarrow> (error \<times> pyobj) + pyobj" where
  "override_weight self iw =
     (case iw of (idx, w) \<Rightarrow>
      bindS (getattr self ''weight_cls'') (\<lambda>v.
      bindS (setitem_val self v (int idx + 1) w) (\<lambda>v'.
      Inr (self(''weight_cls'' \<mapsto> v')))))"

text \<open>\<open>__init__\<close>.  \<open>base\<close> is the object after \<open>super().__init__(init_cfg)\<close>, and
  \<open>init_layers\<close> stands for \<open>self._init_layers()\<close>, which builds the convolution
  blocks; both come from outside this file.  \<open>if loss_weight:\<close> is false for
  \<open>None\<close> and for an empty sequence.\<close>

definition FomoHead_init ::
  "pyobj \<Rightarrow> (pyobj \<Rightarrow> (error \<times> pyobj) + pyobj) \<Rightarrow>
   int list \<Rightarrow> int list \<Rightarrow> int \<Rightarrow> real \<Rightarrow> int list option \<Rightarrow> (error \<times> pyobj) + pyobj" where
  "FomoHead_init base init_layers input_channels out_channels n_classes c_weight loss_weight =
     (let self = base(''num_classes'' \<mapsto> PInt n_classes);
          self = self(''input_channels'' \<mapsto> PInts input_channels);
          self = self(''output_channels'' \<mapsto> PInts out_channels)
      in
        bindS (case loss_weight of
                 None \<Rightarrow> Inr self
               | Some ws \<Rightarrow>
                   if ws \<noteq> [] then foldS override_weight self (enumerate 0 ws) else Inr self)
          (\<lambda>self.
        let self = self(''loss_cls'' \<mapsto> PLoss (Some c_weight));
            self = self(''loss_bg'' \<mapsto> PLoss None);
            self = self(''posit_offset'' \<mapsto> POffsets posit_offset)
        in init_layers self))"

section \<open>Indexing and the loop over the labels\<close>

lemma bindE_Inr_iff: "bindE m f = Inr y \<longleftrightarrow> (\<exists>x. m = Inr x \<and> f x = Inr y)"
  by (cases m) auto

lemma bindE_Inl_iff: "bindE m f = Inl e \<longleftrightarrow> m = Inl e \<or> (\<exists>x. m = Inr x \<and> f x = Inl e)"
  by (cases m) auto


lemma py_index_in_range: "0 \<le> i \<Longrightarrow> i < int n \<Longrightarrow> py_index n i = Inr (nat i)"
  by (simp add: py_index_def)

lemma py_index_error: "py_index n i = Inl e \<Longrightarrow> e = IndexError"
  by (auto simp: py_index_def split: if_splits)

lemma py_indices_error: "py_indices ds js = Inl e \<Longrightarrow> e = IndexError"
  by (induction ds js rule: py_indices.induct)
     (auto simp: bindE_Inl_iff dest: py_index_error)


lemma py_indices_nat: "in_bounds ds ns \<Longrightarrow> py_indices ds (map int ns) = Inr ns"
  unfolding in_bounds_def
  by (induction ns ds rule: list_all2_induct) (auto simp: py_index_def)

lemma mark_label_Inr:
  assumes "shape td = [B, H, W, C]"
  shows "mark_label H W td i = Inr td' \<longleftrightarrow>
    (\<exists>cell c. label_cell [B, H, W, C] i = Inr cell \<and> py_index C (py_int (class_id i)) = Inr c \<and>
       td' = td\<lparr>data := (data td)(cell @ [0] := 0, cell @ [c] := 1)\<rparr>)"
proof -
  have z: "py_index C 0 = Inr k \<longleftrightarrow> 0 < C \<and> k = 0" for k
    by (auto simp: py_index_def)
  have pos: "py_index C j = Inr k \<Longrightarrow> 0 < C" for j k
    by (auto simp: py_index_def split: if_splits)
  show ?thesis
    using assms pos
    by (auto simp: mark_label_def Let_def setitem_def bindE_Inr_iff label_cell_def z)
qed

lemma mark_label_shape:
  "mark_label H W td i = Inr td' \<Longrightarrow> shape td' = shape td"
  by (auto simp: mark_label_def Let_def setitem_def bindE_Inr_iff)

lemma mark_labels_shape:
  "foldE (mark_label H W) td ls = Inr g \<Longrightarrow> shape g = shape td"
  by (induction ls arbitrary: td) (auto simp: bindE_Inr_iff dest: mark_label_shape)

lemma mark_labels_data:
  assumes "foldE (mark_label H W) td ls = Inr g" and "shape td = [B, H, W, C]"
    and "\<forall>i\<in>set ls. 1 \<le> py_int (class_id i) \<and> py_int (class_id i) < int C"
  shows "data g (cell @ [c]) =
    (if c = 0
     then (if \<exists>i\<in>set ls. label_cell [B, H, W, C] i = Inr cell then 0 else data td (cell @ [0]))
     else (if \<exists>i\<in>set ls. label_cell [B, H, W, C] i = Inr cell \<and> py_int (class_id i) = int c
           then 1 else data td (cell @ [c])))"
  using assms
proof (induction ls arbitrary: td)
  case Nil
  then show ?case by simp
next
  case (Cons i ls)
  from Cons.prems(1) obtain td1 where
    1: "mark_label H W td i = Inr td1" and 2: "foldE (mark_label H W) td1 ls = Inr g"
    by (auto simp: bindE_Inr_iff)
  from 1 Cons.prems(2) obtain cell0 c0 where
    c: "label_cell [B, H, W, C] i = Inr cell0" "py_index C (py_int (class_id i)) = Inr c0"
      "td1 = td\<lparr>data := (data td)(cell0 @ [0] := 0, cell0 @ [c0] := 1)\<rparr>"
    by (auto simp: mark_label_Inr)
  from Cons.prems(3) c(2) have c0: "c0 \<noteq> 0" "py_int (class_id i) = int c0"
    by (auto simp: py_index_def split: if_splits)
  have sh: "shape td1 = [B, H, W, C]" using c(3) Cons.prems(2) by simp
  have "data g (cell @ [c]) =
    (if c = 0
     then (if \<exists>i\<in>set ls. label_cell [B, H, W, C] i = Inr cell then 0 else data td1 (cell @ [0]))
     else (if \<exists>i\<in>set ls. label_cell [B, H, W, C] i = Inr cell \<and> py_int (class_id i) = int c
           then 1 else data td1 (cell @ [c])))"
    using Cons.IH[OF 2 sh] Cons.prems(3) by simp
  then show ?case using c c0 by auto
qed


lemma filter_eq_upt: "filter (\<lambda>c. c = k) [0..<C] = (if k < C then [k] else [])"
  by (induction C) auto

lemma one_hot_unit: "k < C \<Longrightarrow> one_hot (map (\<lambda>c. if c = k then 1 else 0) [0..<C])"
  by (simp add: one_hot_def filter_map comp_def filter_eq_upt list_all_iff)

lemma build_target_Inr:
  "build_target preds targets = Inr g \<longleftrightarrow>
   (\<exists>B H W C. shape preds = [B, H, W, C] \<and> 0 < C \<and>
      foldE (mark_label H W)
        \<lparr>shape = [B, H, W, C], data = (\<lambda>idx. if last idx = 0 then 1 else 0)\<rparr> targets = Inr g)"
  by (simp add: build_target_def fill_channel0_def zeros_def split: list.splits cong: if_cong)

lemma build_target_data:
  assumes "build_target preds targets = Inr g" and "shape preds = [B, H, W, C]"
    and "\<forall>i\<in>set targets. 1 \<le> py_int (class_id i) \<and> py_int (class_id i) < int C"
  shows "shape g = [B, H, W, C]"
    and "data g (cell @ [c]) =
    (if c = 0
     then (if \<exists>i\<in>set targets. label_cell [B, H, W, C] i = Inr cell then 0 else 1)
     else (if \<exists>i\<in>set targets. label_cell [B, H, W, C] i = Inr cell \<and> py_int (class_id i) = int c
           then 1 else 0))"
proof -
  let ?td = "\<lparr>shape = [B, H, W, C], data = (\<lambda>idx. if last idx = 0 then (1::real) else 0)\<rparr>"
  from assms(1,2) have f: "foldE (mark_label H W) ?td targets = Inr g"
    by (auto simp: build_target_Inr)
  from mark_labels_shape[OF f] show "shape g = [B, H, W, C]" by simp
  from mark_labels_data[OF f _ assms(3), of B cell c]
  show "data g (cell @ [c]) =
    (if c = 0
     then (if \<exists>i\<in>set targets. label_cell [B, H, W, C] i = Inr cell then 0 else 1)
     else (if \<exists>i\<in>set targets. label_cell [B, H, W, C] i = Inr cell \<and> py_int (class_id i) = int c
           then 1 else 0))"
    by (simp cong: if_cong)
qed

lemma build_target_eval:
  "build_target preds targets =
     (case shape preds of
        [B, H, W, C] \<Rightarrow>
          if C = 0 then Inl IndexError
          else foldE (mark_label H W)
                 \<lparr>shape = [B, H, W, C], data = (\<lambda>idx. if last idx = 0 then 1 else 0)\<rparr> targets
      | _ \<Rightarrow> Inl ValueError)"
  by (simp add: build_target_def fill_channel0_def zeros_def split: list.splits cong: if_cong)

lemma mark_label_eval:
  assumes "shape td = [B, H, W, C]"
  shows "mark_label H W td i =
     bindE (label_cell [B, H, W, C] i) (\<lambda>cell.
     bindE (py_index C (py_int (class_id i))) (\<lambda>c.
     Inr (td\<lparr>data := (data td)(cell @ [0] := 0, cell @ [c] := 1)\<rparr>)))"
proof (cases "mark_label H W td i")
  case (Inr td')
  then show ?thesis using mark_label_Inr[OF assms, of i td'] by auto
next
  case (Inl e)
  then have e: "e = IndexError"
    by (auto simp: mark_label_def Let_def setitem_def bindE_Inl_iff dest: py_indices_error)
  have "\<not> (\<exists>td'. mark_label H W td i = Inr td')" using Inl by simp
  then have no: "\<And>cell c. label_cell [B, H, W, C] i = Inr cell \<Longrightarrow> py_index C (py_int (class_id i)) \<noteq> Inr c"
    using mark_label_Inr[OF assms, of i] by blast
  show ?thesis
  proof (cases "label_cell [B, H, W, C] i")
    case (Inl e')
    then have "e' = IndexError" unfolding label_cell_def by (rule py_indices_error)
    then show ?thesis using Inl \<open>mark_label H W td i = Inl e\<close> e by simp
  next
    case (Inr cell)
    then obtain e' where "py_index C (py_int (class_id i)) = Inl e'"
      using no[OF Inr] by (cases "py_index C (py_int (class_id i))") auto
    moreover from this have "e' = IndexError" by (rule py_index_error)
    ultimately show ?thesis using Inr \<open>mark_label H W td i = Inl e\<close> e by simp
  qed
qed

lemma upt_0_1: "[0..<1] = [0]"
  by (simp add: upt_rec)

lemma upt_0_2: "[0..<2] = [0, 1]"
  by (simp add: upt_rec)

lemma upt_0_3: "[0..<3] = [0, 1, 2]"
  by (simp add: upt_rec)

lemma upt_0_4: "[0..<4] = [0, 1, 2, 3]"
  by (simp add: upt_rec)

text \<open>The grid after one label and after two.\<close>

lemma build_target_one_label:
  assumes "shape preds = [B, H, W, C]"
    and "label_cell [B, H, W, C] a = Inr ca" and "py_index C (py_int (class_id a)) = Inr ka"
  shows "build_target preds [a] =
    Inr \<lparr>shape = [B, H, W, C],
         data = (\<lambda>idx. if last idx = 0 then 1 else 0)(ca @ [0] := 0, ca @ [ka] := 1)\<rparr>"
proof -
  from assms(3) have "0 < C" by (auto simp: py_index_def split: if_splits)
  then show ?thesis
    using assms by (simp add: build_target_eval mark_label_eval)
qed

lemma build_target_two_labels:
  assumes "shape preds = [B, H, W, C]"
    and "label_cell [B, H, W, C] a = Inr ca" and "py_index C (py_int (class_id a)) = Inr ka"
    and "label_cell [B, H, W, C] b = Inr cb" and "py_index C (py_int (class_id b)) = Inr kb"
  shows "build_target preds [a, b] =
    Inr \<lparr>shape = [B, H, W, C],
         data = (\<lambda>idx. if last idx = 0 then 1 else 0)
           (ca @ [0] := 0, ca @ [ka] := 1, cb @ [0] := 0, cb @ [kb] := 1)\<rparr>"
proof -
  from assms(3) have "0 < C" by (auto simp: py_index_def split: if_splits)
  then show ?thesis
    using assms by (simp add: build_target_eval mark_label_eval)
qed

section \<open>Float64 products\<close>

lemma round_half_even_of_int: "round_half_even (of_int n) = n"
  by (simp add: round_half_even_def)

lemma float64_round_eval:
  assumes "0 < x" and "2 powr of_int e \<le> x" and "x < 2 powr (of_int e + 1)" and "e \<le> 52"
  shows "float64_round x = of_int (round_half_even (x * 2 ^ nat (52 - e))) / 2 ^ nat (52 - e)"
proof -
  have e: "\<lfloor>log 2 x\<rfloor> = e"
    using assms(1-3) by (simp add: floor_log_eq_powr_iff)
  have u: "(2::real) powr (of_int e - 52) = 1 / 2 ^ nat (52 - e)"
  proof -
    have "(2::real) powr (of_int e - 52) = 2 powr (- real (nat (52 - e)))"
      using assms(4) by simp
    also have "\<dots> = 1 / 2 powr (real (nat (52 - e)))" by (simp only: powr_minus_divide)
    also have "\<dots> = 1 / 2 ^ nat (52 - e)" by (simp add: powr_realpow)
    finally show ?thesis .
  qed
  show ?thesis using assms(1) by (simp add: float64_round_def e u Let_def)
qed

lemma float64_mul_eval:
  assumes "0 < a * b" and "2 powr of_int e \<le> a * b" and "a * b < 2 powr (of_int e + 1)"
    and "e \<le> 52"
  shows "float64_mul a b =
    of_int (round_half_even (a * b * 2 ^ nat (52 - e))) / 2 ^ nat (52 - e)"
  unfolding float64_mul_def by (rule float64_round_eval[OF assms])

lemma float64_mul_zero: "float64_mul 0 b = 0"
  by (simp add: float64_mul_def float64_round_def)

text \<open>A number with a significand of at most 53 bits is not changed by the rounding.\<close>

lemma float64_round_exact:
  assumes "\<bar>m\<bar> < 2 ^ 53"
  shows "float64_round (of_int m * 2 powr of_int k) = of_int m * 2 powr of_int k"
proof (cases "m = 0")
  case True
  then show ?thesis by (simp add: float64_round_def)
next
  case False
  define x :: real where "x = of_int m * 2 powr of_int k"
  define e where "e = \<lfloor>log 2 \<bar>x\<bar>\<rfloor>"
  have x0: "x \<noteq> 0" "0 < \<bar>x\<bar>" using False by (simp_all add: x_def)
  have ax: "\<bar>x\<bar> = of_int \<bar>m\<bar> * 2 powr of_int k" by (simp add: x_def abs_mult)
  have "2 powr of_int e \<le> \<bar>x\<bar>"
    using x0(2) floor_log_eq_powr_iff[of "\<bar>x\<bar>" 2 e] by (simp add: e_def)
  also have "\<bar>x\<bar> < 2 ^ 53 * 2 powr of_int k"
  proof -
    have "real_of_int \<bar>m\<bar> < real_of_int (2 ^ 53)" using assms by (simp only: of_int_less_iff)
    then show ?thesis unfolding ax by simp
  qed
  also have "\<dots> = 2 powr (53 + of_int k)"
    by (simp add: powr_add)
  finally have "real_of_int e < 53 + of_int k" by simp
  then have n: "0 \<le> 52 + k - e" by linarith
  define n where "n = nat (52 + k - e)"
  have "x / 2 powr (of_int e - 52) = of_int m * (2 powr of_int k / 2 powr (of_int e - 52))"
    by (simp add: x_def)
  also have "2 powr of_int k / 2 powr (of_int e - 52) = (2::real) powr (of_int k - (of_int e - 52))"
    by (simp only: powr_diff)
  also have "of_int k - (of_int e - 52) = real n" using n by (simp add: n_def)
  also have "2 powr real n = (2::real) ^ n" by (simp add: powr_realpow)
  finally have q: "x / 2 powr (of_int e - 52) = of_int (m * 2 ^ n)" by simp
  have "float64_round x = of_int (m * 2 ^ n) * 2 powr (of_int e - 52)"
    using x0(1) by (simp add: float64_round_def Let_def e_def[symmetric] q round_half_even_of_int
        del: of_int_mult of_int_power)
  also have "\<dots> = x"
  proof -
    have "(2::real) powr (of_int e - 52) \<noteq> 0" by simp
    then show ?thesis unfolding q[symmetric] by simp
  qed
  finally show ?thesis by (simp add: x_def)
qed

text \<open>A float32 number has a significand of at most 24 bits, so its product with a size
  below \<open>2^29\<close> is exact.\<close>

lemma float32_product_exact:
  assumes "\<bar>m\<bar> < 2 ^ 24" and "n < 2 ^ 29"
  shows "float64_mul (of_int m * 2 powr of_int k) (real n) = of_int m * 2 powr of_int k * real n"
proof -
  have "\<bar>m * int n\<bar> = \<bar>m\<bar> * int n" by (simp add: abs_mult)
  also have "\<dots> < 2 ^ 24 * 2 ^ 29"
  proof (cases "n = 0")
    case True
    then show ?thesis by simp
  next
    case False
    have "\<bar>m\<bar> * int n < 2 ^ 24 * int n" using assms(1) False by simp
    also have "\<dots> \<le> 2 ^ 24 * 2 ^ 29" using assms(2) by simp
    finally show ?thesis .
  qed
  finally have "\<bar>m * int n\<bar> < 2 ^ 53" by simp
  from float64_round_exact[OF this, of k] show ?thesis
    by (simp add: float64_mul_def mult.assoc mult.commute mult.left_commute)
qed

text \<open>The rounding moves a number by at most half the distance between neighbouring
  floats, so a float64 fraction below 1 times a size stays below the size.\<close>

lemma round_half_even_bounds:
  "of_int (round_half_even t) \<le> t + 1 / 2" "t - 1 / 2 \<le> of_int (round_half_even t)"
proof -
  have f: "of_int \<lfloor>t\<rfloor> \<le> t" "t < of_int \<lfloor>t\<rfloor> + 1" by linarith+
  show "of_int (round_half_even t) \<le> t + 1 / 2"
    using f unfolding round_half_even_def Let_def by (simp split: if_splits) linarith
  show "t - 1 / 2 \<le> of_int (round_half_even t)"
    using f unfolding round_half_even_def Let_def by (simp split: if_splits) linarith
qed

lemma round_half_even_nonneg: "0 \<le> t \<Longrightarrow> 0 \<le> round_half_even t"
  by (auto simp: round_half_even_def Let_def)

lemma float64_round_nonneg: "0 \<le> z \<Longrightarrow> 0 \<le> float64_round z"
  by (auto simp: float64_round_def Let_def intro!: mult_nonneg_nonneg round_half_even_nonneg
      divide_nonneg_nonneg)

lemma float64_round_upper:
  assumes "0 < z"
  shows "float64_round z \<le> z + 2 powr of_int \<lfloor>log 2 z\<rfloor> / 2 ^ 53"
proof -
  define e where "e = \<lfloor>log 2 z\<rfloor>"
  define u :: real where "u = 2 powr (of_int e - 52)"
  have u: "0 < u" by (simp add: u_def)
  have "float64_round z = of_int (round_half_even (z / u)) * u"
    using assms by (simp add: float64_round_def Let_def e_def u_def)
  also have "\<dots> \<le> (z / u + 1 / 2) * u"
    using round_half_even_bounds(1)[of "z / u"] u by (simp add: mult_right_mono)
  also have "\<dots> = z + u / 2" using u by (simp add: field_simps)
  also have "u / 2 = 2 powr of_int e / 2 ^ 53"
  proof -
    have "u = 2 powr of_int e / 2 powr 52" unfolding u_def by (simp only: powr_diff)
    then show ?thesis by simp
  qed
  finally show ?thesis by (simp add: e_def)
qed

text \<open>The largest float64 number below 1 is \<open>1 - 2^-53\<close>.\<close>

lemma float64_below_one:
  assumes "is_float64 y" and "0 \<le> y" and "y < 1"
  shows "y \<le> 1 - 1 / 2 ^ 53"
proof (cases "y = 0")
  case True
  then show ?thesis by simp
next
  case False
  with assms(2) have pos: "0 < y" by simp
  define e where "e = \<lfloor>log 2 y\<rfloor>"
  have b: "2 powr of_int e \<le> y" "y < 2 powr (of_int e + 1)"
    using pos floor_log_eq_powr_iff[of y 2 e] by (simp_all add: e_def)
  have "(2::real) powr of_int e < 2 powr of_int 0" using b(1) assms(3) by simp
  then have "e < 0" by (simp only: powr_less_cancel_iff of_int_less_iff) 
  then have e: "e \<le> - 1" by simp
  show ?thesis
  proof (cases "e = - 1")
    case True
    define n where "n = round_half_even (y / (1 / 2 ^ 53))"
    have u: "(2::real) powr (of_int e - 52) = 1 / 2 ^ 53"
      unfolding True by (simp add: powr_minus_divide)
    have "float64_round y =
        of_int (round_half_even (y / 2 powr (of_int e - 52))) * 2 powr (of_int e - 52)"
      using pos by (simp add: float64_round_def Let_def e_def)
    then have "float64_round y = of_int n * (1 / 2 ^ 53)"
      unfolding u n_def .
    then have y: "y = of_int n / 2 ^ 53"
      using assms(1) unfolding is_float64_def by simp
    have "real_of_int n < real_of_int (2 ^ 53)" using assms(3) unfolding y by simp
    then have "n < 2 ^ 53" by (simp only: of_int_less_iff)
    then have "n \<le> 2 ^ 53 - 1" by simp
    then have "real_of_int n \<le> real_of_int (2 ^ 53 - 1)" by (simp only: of_int_le_iff)
    then show ?thesis unfolding y by (simp add: field_simps)
  next
    case False
    with e have "e + 1 \<le> - 1" by simp
    then have "real_of_int e + 1 \<le> - 1" by linarith
    then have "(2::real) powr (of_int e + 1) \<le> 2 powr (- 1)"
      by (intro powr_mono) simp_all
    then have "y < 1 / 2" using b(2) by (simp add: powr_minus_divide)
    then show ?thesis by simp
  qed
qed

lemma float64_fraction_product:
  assumes "is_float64 y" and "0 \<le> y" and "y < 1" and "0 < H"
  shows "0 \<le> float64_mul y (real H)" and "float64_mul y (real H) < real H"
proof -
  show "0 \<le> float64_mul y (real H)"
    unfolding float64_mul_def using assms(2) by (intro float64_round_nonneg) simp
  show "float64_mul y (real H) < real H"
  proof (cases "y = 0")
    case True
    then show ?thesis using assms(4) by (simp add: float64_mul_def float64_round_def)
  next
    case False
    define z where "z = y * real H"
    have z: "0 < z" using False assms(2,4) by (simp add: z_def)
    have zH: "z < real H" using assms(3,4) by (simp add: z_def)
    have le: "z \<le> real H - real H / 2 ^ 53"
    proof -
      have "z \<le> (1 - 1 / 2 ^ 53) * real H"
        unfolding z_def using float64_below_one[OF assms(1-3)] by (intro mult_right_mono) simp_all
      then show ?thesis by (simp add: algebra_simps)
    qed
    have "2 powr of_int \<lfloor>log 2 z\<rfloor> \<le> z"
      using z floor_log_eq_powr_iff[of z 2 "\<lfloor>log 2 z\<rfloor>"] by simp
    then have p: "2 powr of_int \<lfloor>log 2 z\<rfloor> < real H" using zH by simp
    have "float64_round z \<le> z + 2 powr of_int \<lfloor>log 2 z\<rfloor> / 2 ^ 53"
      by (rule float64_round_upper[OF z])
    also have "\<dots> < z + real H / 2 ^ 53" using p by (simp add: divide_strict_right_mono)
    also have "\<dots> \<le> real H" using le by simp
    finally show ?thesis by (simp add: float64_mul_def z_def)
  qed
qed

section \<open>The target grid\<close>

text \<open>
  C1 (as amended): in every grid that \<open>build_target\<close> returns, for labels with a class id
  in \<open>[1, C - 1]\<close>, a cell is one-hot along the attribute axis provided all the labels
  that are written to that cell carry one class id; in particular every cell that at
  most one label maps to.  A label only clears channel 0 and sets its own class channel,
  it never clears the class channel of an earlier label.
\<close>

theorem build_target_one_hot:
  assumes "build_target preds targets = Inr g"
    and "shape preds = [B, H, W, C]"
    and "\<forall>i\<in>set targets. 1 \<le> py_int (class_id i) \<and> py_int (class_id i) \<le> int C - 1"
    and "in_bounds [B, H, W] cell"
    and "\<forall>i\<in>set targets. \<forall>j\<in>set targets.
           label_cell [B, H, W, C] i = Inr cell \<and> label_cell [B, H, W, C] j = Inr cell \<longrightarrow>
           py_int (class_id i) = py_int (class_id j)"
  shows "one_hot (cell_vector g cell)"
proof -
  have cls: "\<forall>i\<in>set targets. 1 \<le> py_int (class_id i) \<and> py_int (class_id i) < int C"
    using assms(3) by auto
  note d = build_target_data[OF assms(1,2) cls]
  from assms(1) assms(2) have C: "0 < C" by (auto simp: build_target_Inr)
  show ?thesis
  proof (cases "\<exists>i\<in>set targets. label_cell [B, H, W, C] i = Inr cell")
    case False
    then have "cell_vector g cell = map (\<lambda>c. if c = 0 then 1 else 0) [0..<C]"
      by (simp add: cell_vector_def d)
    then show ?thesis using one_hot_unit[OF C] by simp
  next
    case True
    then obtain i where i: "i \<in> set targets" "label_cell [B, H, W, C] i = Inr cell" by blast
    define k where "k = nat (py_int (class_id i))"
    have k: "0 < k" "k < C" "py_int (class_id i) = int k" using cls i(1) by (auto simp: k_def)
    have same: "\<And>j. j \<in> set targets \<Longrightarrow> label_cell [B, H, W, C] j = Inr cell \<Longrightarrow> py_int (class_id j) = int k"
      using assms(5) i k(3) by metis
    have "data g (cell @ [c]) = (if c = k then 1 else 0)" for c
      using d(2)[of cell c] i k same by auto
    then have "cell_vector g cell = map (\<lambda>c. if c = k then 1 else 0) [0..<C]"
      by (simp add: cell_vector_def d(1))
    then show ?thesis using one_hot_unit[OF k(2)] by simp
  qed
qed

theorem build_target_one_hot_witness:
  "build_target \<lparr>shape = [1, 2, 2, 3], data = (\<lambda>_. 0::real)\<rparr>
     [\<lparr>image_index = 0, class_id = 1, x_fraction = 6 / 10, y_fraction = 6 / 10\<rparr>,
      \<lparr>image_index = 0, class_id = 1, x_fraction = 7 / 10, y_fraction = 5 / 10\<rparr>] =
   Inr \<lparr>shape = [1, 2, 2, 3],
        data = (\<lambda>idx. if last idx = 0 then 1 else 0)
          ([0, 1, 1, 0] := 0, [0, 1, 1, 1] := 1, [0, 1, 1, 0] := 0, [0, 1, 1, 1] := 1)\<rparr> \<and>
   one_hot (cell_vector
     \<lparr>shape = [1, 2, 2, 3],
        data = (\<lambda>idx. if last idx = 0 then 1 else (0::real))
          ([0, 1, 1, 0] := 0, [0, 1, 1, 1] := 1, [0, 1, 1, 0] := 0, [0, 1, 1, 1] := 1)\<rparr>
     [0, 1, 1])"
proof -
  let ?P = "\<lparr>shape = [1, 2, 2, 3], data = (\<lambda>_. 0::real)\<rparr>"
  let ?a = "\<lparr>image_index = 0, class_id = 1, x_fraction = 6 / 10, y_fraction = 6 / 10\<rparr>"
  let ?b = "\<lparr>image_index = 0, class_id = 1, x_fraction = 7 / 10, y_fraction = 5 / 10\<rparr>"
  let ?T = "[?a, ?b]"
  let ?G = "\<lparr>shape = [1, 2, 2, 3],
        data = (\<lambda>idx. if last idx = 0 then 1 else (0::real))
          ([0, 1, 1, 0] := 0, [0, 1, 1, 1] := 1, [0, 1, 1, 0] := 0, [0, 1, 1, 1] := 1)\<rparr>"
  have a: "label_cell [1, 2, 2, 3] ?a = Inr [0, 1, 1]"
    by (simp add: label_cell_def float64_mul_eval[of _ _ 0] round_half_even_def py_index_def
        py_int_def)
  have b: "label_cell [1, 2, 2, 3] ?b = Inr [0, 1, 1]"
    by (simp add: label_cell_def float64_mul_eval[of _ _ 0] round_half_even_def py_index_def
        py_int_def)
  have k: "py_index 3 (py_int (class_id ?a)) = Inr 1" "py_index 3 (py_int (class_id ?b)) = Inr 1"
    by (simp_all add: py_index_def py_int_def)
  have 1: "build_target ?P ?T = Inr ?G"
    using build_target_two_labels[OF _ a k(1) b k(2), of ?P] by simp
  have 2: "shape ?P = [1, 2, 2, 3]" by simp
  have 3: "\<forall>i\<in>set ?T. 1 \<le> py_int (class_id i) \<and> py_int (class_id i) \<le> int 3 - 1"
    by (simp add: py_int_def)
  have 4: "in_bounds [1, 2, 2] [0, 1, 1]" by (simp add: in_bounds_def)
  have 5: "\<forall>i\<in>set ?T. \<forall>j\<in>set ?T.
           label_cell [1, 2, 2, 3] i = Inr [0, 1, 1] \<and> label_cell [1, 2, 2, 3] j = Inr [0, 1, 1] \<longrightarrow>
           py_int (class_id i) = py_int (class_id j)"
    by simp
  from build_target_one_hot[OF 1 2 3 4 5] 1 show ?thesis by simp
qed

text \<open>
  C1 as stated fails: two labels of classes 1 and 2 at one cell leave the cell with two
  channels set.
\<close>

theorem build_target_two_hot:
  "map_sum id (\<lambda>g. (cell_vector g [0, 0, 0], one_hot (cell_vector g [0, 0, 0])))
     (build_target \<lparr>shape = [1, 1, 1, 3], data = (\<lambda>_. 0::real)\<rparr>
        [\<lparr>image_index = 0, class_id = 1, x_fraction = 1 / 2, y_fraction = 1 / 2\<rparr>,
         \<lparr>image_index = 0, class_id = 2, x_fraction = 1 / 2, y_fraction = 1 / 2\<rparr>]) =
   Inr ([0, 1, 1], False)"
proof -
  have c: "label_cell [1, 1, 1, 3]
      \<lparr>image_index = 0, class_id = k, x_fraction = 1 / 2, y_fraction = 1 / 2\<rparr> = Inr [0, 0, 0]" for k
    by (simp add: label_cell_def float64_mul_eval[of _ _ "- 1"] round_half_even_def py_index_def
        py_int_def)
  have "build_target \<lparr>shape = [1, 1, 1, 3], data = (\<lambda>_. 0::real)\<rparr>
        [\<lparr>image_index = 0, class_id = 1, x_fraction = 1 / 2, y_fraction = 1 / 2\<rparr>,
         \<lparr>image_index = 0, class_id = 2, x_fraction = 1 / 2, y_fraction = 1 / 2\<rparr>] =
    Inr \<lparr>shape = [1, 1, 1, 3],
        data = (\<lambda>idx. if last idx = 0 then 1 else 0)
          ([0, 0, 0, 0] := 0, [0, 0, 0, 1] := 1, [0, 0, 0, 0] := 0, [0, 0, 0, 2] := 1)\<rparr>"
    using build_target_two_labels[of "\<lparr>shape = [1, 1, 1, 3], data = (\<lambda>_. 0::real)\<rparr>" 1 1 1 3 _ _ 1 _ _ 2,
        OF _ c[of 1] _ c[of 2]]
    by (simp add: py_index_def py_int_def)
  then show ?thesis
    by (simp add: cell_vector_def one_hot_def upt_0_3)
qed

lemma floor_fraction:
  assumes "0 \<le> x" "x < 1" "0 < n"
  shows "0 \<le> \<lfloor>x * real n\<rfloor>" and "\<lfloor>x * real n\<rfloor> < int n"
proof -
  show "0 \<le> \<lfloor>x * real n\<rfloor>" using assms by simp
  have "x * real n < real n" using assms by simp
  then show "\<lfloor>x * real n\<rfloor> < int n" by (simp add: floor_less_iff)
qed

lemma valid_label_class:
  assumes "valid_label B C i"
  shows "py_int (class_id i) = \<lfloor>class_id i\<rfloor>" and "1 \<le> \<lfloor>class_id i\<rfloor>" and "\<lfloor>class_id i\<rfloor> < int C"
  using assms by (auto simp: valid_label_def py_int_def floor_less_iff le_floor_iff)

lemma valid_label_cell:
  assumes "valid_label B C i" and "exact_products H W i" and "0 < H" and "0 < W"
  shows "label_cell [B, H, W, C] i = Inr (spec_cell H W i)"
proof -
  from assms(1) have b: "0 \<le> \<lfloor>image_index i\<rfloor>" "\<lfloor>image_index i\<rfloor> < int B"
    by (auto simp: valid_label_def floor_less_iff)
  from assms have y: "0 \<le> \<lfloor>y_fraction i * real H\<rfloor>" "\<lfloor>y_fraction i * real H\<rfloor> < int H"
    by (auto simp: valid_label_def intro: floor_fraction)
  from assms have x: "0 \<le> \<lfloor>x_fraction i * real W\<rfloor>" "\<lfloor>x_fraction i * real W\<rfloor> < int W"
    by (auto simp: valid_label_def intro: floor_fraction)
  from assms(1,2) have p: "py_int (image_index i) = \<lfloor>image_index i\<rfloor>"
    "py_int (float64_mul (y_fraction i) (real H)) = \<lfloor>y_fraction i * real H\<rfloor>"
    "py_int (float64_mul (x_fraction i) (real W)) = \<lfloor>x_fraction i * real W\<rfloor>"
    by (auto simp: valid_label_def exact_products_def py_int_def)
  show ?thesis
    using b y x by (simp add: label_cell_def spec_cell_def p py_index_in_range)
qed

lemma float64_label_cell:
  assumes "valid_label B C i" and "is_float64 (x_fraction i)" and "is_float64 (y_fraction i)"
    and "0 < H" and "0 < W"
  shows "label_cell [B, H, W, C] i =
    Inr [nat \<lfloor>image_index i\<rfloor>, nat \<lfloor>float64_mul (y_fraction i) (real H)\<rfloor>,
         nat \<lfloor>float64_mul (x_fraction i) (real W)\<rfloor>]"
proof -
  from assms(1) have b: "0 \<le> \<lfloor>image_index i\<rfloor>" "\<lfloor>image_index i\<rfloor> < int B"
    by (auto simp: valid_label_def floor_less_iff)
  from assms(1) have fr: "0 \<le> y_fraction i" "y_fraction i < 1" "0 \<le> x_fraction i" "x_fraction i < 1"
    by (auto simp: valid_label_def)
  note y = float64_fraction_product[OF assms(3) fr(1,2) assms(4)]
  note x = float64_fraction_product[OF assms(2) fr(3,4) assms(5)]
  have yi: "0 \<le> \<lfloor>float64_mul (y_fraction i) (real H)\<rfloor>"
    "\<lfloor>float64_mul (y_fraction i) (real H)\<rfloor> < int H"
    using y by (simp_all add: floor_less_iff)
  have xi: "0 \<le> \<lfloor>float64_mul (x_fraction i) (real W)\<rfloor>"
    "\<lfloor>float64_mul (x_fraction i) (real W)\<rfloor> < int W"
    using x by (simp_all add: floor_less_iff)
  from assms(1) y(1) x(1) have p: "py_int (image_index i) = \<lfloor>image_index i\<rfloor>"
    "py_int (float64_mul (y_fraction i) (real H)) = \<lfloor>float64_mul (y_fraction i) (real H)\<rfloor>"
    "py_int (float64_mul (x_fraction i) (real W)) = \<lfloor>float64_mul (x_fraction i) (real W)\<rfloor>"
    by (auto simp: valid_label_def py_int_def)
  show ?thesis
    using b yi xi by (simp add: label_cell_def p py_index_in_range)
qed

lemma mark_labels_returns:
  assumes "shape td = [B, H, W, C]"
    and "\<forall>i\<in>set ls. 1 \<le> py_int (class_id i) \<and> py_int (class_id i) < int C"
  shows "(\<exists>g. foldE (mark_label H W) td ls = Inr g) \<longleftrightarrow>
    (\<forall>i\<in>set ls. \<exists>cell. label_cell [B, H, W, C] i = Inr cell)"
  using assms
proof (induction ls arbitrary: td)
  case Nil
  then show ?case by simp
next
  case (Cons i ls)
  from Cons.prems(2) have c: "py_index C (py_int (class_id i)) = Inr (nat (py_int (class_id i)))"
    by (simp add: py_index_in_range)
  show ?case
  proof (cases "label_cell [B, H, W, C] i")
    case (Inl e)
    then show ?thesis by (simp add: mark_label_eval[OF Cons.prems(1)])
  next
    case (Inr cell)
    define td1 where "td1 = td\<lparr>data := (data td)
      (cell @ [0] := 0, cell @ [nat (py_int (class_id i))] := 1)\<rparr>"
    have 1: "mark_label H W td i = Inr td1"
      using Inr c by (simp add: mark_label_eval[OF Cons.prems(1)] td1_def)
    have "shape td1 = [B, H, W, C]" using Cons.prems(1) by (simp add: td1_def)
    from Cons.IH[OF this] Cons.prems(2) 1 Inr show ?thesis by simp
  qed
qed

lemma mark_labels_total:
  assumes "shape td = [B, H, W, C]"
    and "\<forall>i\<in>set ls. valid_label B C i \<and> exact_products H W i" and "0 < H" and "0 < W"
  shows "\<exists>g. foldE (mark_label H W) td ls = Inr g"
proof -
  have "\<forall>i\<in>set ls. 1 \<le> py_int (class_id i) \<and> py_int (class_id i) < int C"
    using assms(2) valid_label_class by metis
  from mark_labels_returns[OF assms(1) this] show ?thesis
    using assms(2) valid_label_cell[OF _ _ assms(3,4)] by blast
qed

text \<open>
  C3 (as amended): for labels with a class id in \<open>[1, C - 1]\<close>, \<open>build_target\<close> returns
  exactly when \<open>C > 0\<close> and the cell of every label, \<open>(int(i[0]), int(y * H), int(x * W))\<close>
  with the two products rounded as float64 products, is a cell of the grid (a negative
  index counting from the end).  The grid it returns has the shape of the prediction map
  and is background one-hot at every cell no label is written to; at a cell some label is
  written to, channel 0 is cleared and channel \<open>c \<ge> 1\<close> is 1 exactly when some label
  written to the cell has class \<open>c\<close>.  So the class of the last label is set there, and so
  is the class of every earlier label of that cell.  On a grid with \<open>H, W, C > 0\<close>, for
  labels with image index in \<open>[0, B)\<close> and float64 fractions in \<open>[0, 1)\<close> it returns, and
  the cell of a label is \<open>(batch_index, floor(fl(y * H)), floor(fl(x * W)))\<close>, \<open>fl\<close> the
  float64 rounding; when the two products are exact (every float32 label on a grid of
  fewer than \<open>2^29\<close> rows and columns), that is
  \<open>(batch_index, floor(y * H), floor(x * W))\<close>.
\<close>

theorem build_target_cells:
  assumes "shape preds = [B, H, W, C]"
  shows "((\<forall>i\<in>set targets. 1 \<le> py_int (class_id i) \<and> py_int (class_id i) \<le> int C - 1) \<longrightarrow>
       ((\<exists>g. build_target preds targets = Inr g) \<longleftrightarrow>
          0 < C \<and> (\<forall>i\<in>set targets. \<exists>cell. label_cell [B, H, W, C] i = Inr cell)) \<and>
       (\<forall>g. build_target preds targets = Inr g \<longrightarrow>
          shape g = [B, H, W, C] \<and>
          (\<forall>cell c. in_bounds [B, H, W, C] (cell @ [c]) \<longrightarrow>
             data g (cell @ [c]) =
               (if c = 0
                then (if \<exists>i\<in>set targets. label_cell [B, H, W, C] i = Inr cell then 0 else 1)
                else (if \<exists>i\<in>set targets. label_cell [B, H, W, C] i = Inr cell \<and>
                           py_int (class_id i) = int c
                      then 1 else 0))))) \<and>
     (0 < H \<and> 0 < W \<and> 0 < C \<and>
      (\<forall>i\<in>set targets. valid_label B C i \<and>
         is_float64 (x_fraction i) \<and> is_float64 (y_fraction i)) \<longrightarrow>
       (\<exists>g. build_target preds targets = Inr g) \<and>
       (\<forall>i\<in>set targets. label_cell [B, H, W, C] i =
          Inr [nat \<lfloor>image_index i\<rfloor>, nat \<lfloor>float64_mul (y_fraction i) (real H)\<rfloor>,
               nat \<lfloor>float64_mul (x_fraction i) (real W)\<rfloor>])) \<and>
     (0 < H \<and> 0 < W \<and> 0 < C \<and>
      (\<forall>i\<in>set targets. valid_label B C i \<and> exact_products H W i) \<longrightarrow>
       (\<exists>g. build_target preds targets = Inr g \<and> shape g = [B, H, W, C] \<and>
          (\<forall>cell c. in_bounds [B, H, W, C] (cell @ [c]) \<longrightarrow>
             data g (cell @ [c]) =
               (if c = 0
                then (if \<exists>i\<in>set targets. spec_cell H W i = cell then 0 else 1)
                else (if \<exists>i\<in>set targets. spec_cell H W i = cell \<and> nat \<lfloor>class_id i\<rfloor> = c
                      then 1 else 0)))))"
proof -
  let ?td = "\<lparr>shape = [B, H, W, C], data = (\<lambda>idx. if last idx = 0 then (1::real) else 0)\<rparr>"
  have sh: "shape ?td = [B, H, W, C]" by simp
  have general: "((\<exists>g. build_target preds targets = Inr g) \<longleftrightarrow>
          0 < C \<and> (\<forall>i\<in>set targets. \<exists>cell. label_cell [B, H, W, C] i = Inr cell)) \<and>
       (\<forall>g. build_target preds targets = Inr g \<longrightarrow>
          shape g = [B, H, W, C] \<and>
          (\<forall>cell c. in_bounds [B, H, W, C] (cell @ [c]) \<longrightarrow>
             data g (cell @ [c]) =
               (if c = 0
                then (if \<exists>i\<in>set targets. label_cell [B, H, W, C] i = Inr cell then 0 else 1)
                else (if \<exists>i\<in>set targets. label_cell [B, H, W, C] i = Inr cell \<and>
                           py_int (class_id i) = int c
                      then 1 else 0))))"
    if "\<forall>i\<in>set targets. 1 \<le> py_int (class_id i) \<and> py_int (class_id i) \<le> int C - 1"
  proof -
    from that have cls: "\<forall>i\<in>set targets. 1 \<le> py_int (class_id i) \<and> py_int (class_id i) < int C"
      by auto
    have r: "(\<exists>g. build_target preds targets = Inr g) \<longleftrightarrow>
          0 < C \<and> (\<forall>i\<in>set targets. \<exists>cell. label_cell [B, H, W, C] i = Inr cell)"
      using mark_labels_returns[OF sh cls] assms by (auto simp: build_target_eval)
    have d: "shape g = [B, H, W, C] \<and>
          (\<forall>cell c. in_bounds [B, H, W, C] (cell @ [c]) \<longrightarrow>
             data g (cell @ [c]) =
               (if c = 0
                then (if \<exists>i\<in>set targets. label_cell [B, H, W, C] i = Inr cell then 0 else 1)
                else (if \<exists>i\<in>set targets. label_cell [B, H, W, C] i = Inr cell \<and>
                           py_int (class_id i) = int c
                      then 1 else 0)))"
      if g: "build_target preds targets = Inr g" for g
      using build_target_data[OF g assms cls] by simp
    from r d show ?thesis by blast
  qed
  have floats: "(\<exists>g. build_target preds targets = Inr g) \<and>
       (\<forall>i\<in>set targets. label_cell [B, H, W, C] i =
          Inr [nat \<lfloor>image_index i\<rfloor>, nat \<lfloor>float64_mul (y_fraction i) (real H)\<rfloor>,
               nat \<lfloor>float64_mul (x_fraction i) (real W)\<rfloor>])"
    if v: "0 < H \<and> 0 < W \<and> 0 < C \<and>
      (\<forall>i\<in>set targets. valid_label B C i \<and>
         is_float64 (x_fraction i) \<and> is_float64 (y_fraction i))"
  proof -
    from v have H: "0 < H" and W: "0 < W" and C: "0 < C" by auto
    have cell: "label_cell [B, H, W, C] i =
          Inr [nat \<lfloor>image_index i\<rfloor>, nat \<lfloor>float64_mul (y_fraction i) (real H)\<rfloor>,
               nat \<lfloor>float64_mul (x_fraction i) (real W)\<rfloor>]"
      if "i \<in> set targets" for i
      using v that by (intro float64_label_cell[OF _ _ _ H W]) auto
    have cls: "\<forall>i\<in>set targets. 1 \<le> py_int (class_id i) \<and> py_int (class_id i) < int C"
      using v valid_label_class by metis
    have "\<exists>g. foldE (mark_label H W) ?td targets = Inr g"
      unfolding mark_labels_returns[OF sh cls] using cell by simp
    then have "\<exists>g. build_target preds targets = Inr g"
      using assms C by (simp add: build_target_eval)
    with cell show ?thesis by blast
  qed
  have exact: "\<exists>g. build_target preds targets = Inr g \<and> shape g = [B, H, W, C] \<and>
          (\<forall>cell c. in_bounds [B, H, W, C] (cell @ [c]) \<longrightarrow>
             data g (cell @ [c]) =
               (if c = 0
                then (if \<exists>i\<in>set targets. spec_cell H W i = cell then 0 else 1)
                else (if \<exists>i\<in>set targets. spec_cell H W i = cell \<and> nat \<lfloor>class_id i\<rfloor> = c
                      then 1 else 0)))"
    if v: "0 < H \<and> 0 < W \<and> 0 < C \<and>
      (\<forall>i\<in>set targets. valid_label B C i \<and> exact_products H W i)"
  proof -
    from v have H: "0 < H" and W: "0 < W" and C: "0 < C"
      and vs: "\<forall>i\<in>set targets. valid_label B C i \<and> exact_products H W i" by auto
    from mark_labels_total[OF sh vs H W] obtain g where
      "foldE (mark_label H W) ?td targets = Inr g" by blast
    with assms C have g: "build_target preds targets = Inr g"
      by (simp add: build_target_eval)
    have cls: "\<forall>i\<in>set targets. 1 \<le> py_int (class_id i) \<and> py_int (class_id i) < int C"
      using vs valid_label_class by metis
    note d = build_target_data[OF g assms cls]
    have cellq: "(label_cell [B, H, W, C] i = Inr cell) = (spec_cell H W i = cell)"
      if "i \<in> set targets" for i cell
      using valid_label_cell[OF _ _ H W, of B C i] vs that by auto
    have clsq: "(py_int (class_id i) = int c) = (nat \<lfloor>class_id i\<rfloor> = c)"
      if "i \<in> set targets" for i c
      using valid_label_class[of B C i] vs that by auto
    have "data g (cell @ [c]) =
            (if c = 0
             then (if \<exists>i\<in>set targets. spec_cell H W i = cell then 0 else 1)
             else (if \<exists>i\<in>set targets. spec_cell H W i = cell \<and> nat \<lfloor>class_id i\<rfloor> = c
                   then 1 else 0))" for cell c
      unfolding d(2)[of cell c] using cellq clsq by (auto cong: if_cong)
    with g d(1) show ?thesis by blast
  qed
  from general floats exact show ?thesis by blast
qed

theorem build_target_cells_witness:
  "valid_label 1 4 \<lparr>image_index = 0, class_id = 3, x_fraction = 5 / 8, y_fraction = 1 / 2\<rparr> \<and>
   valid_label 1 4 \<lparr>image_index = 0, class_id = 1, x_fraction = 3 / 4, y_fraction = 7 / 8\<rparr> \<and>
   is_float64 (5 / 8) \<and> is_float64 (1 / 2) \<and> is_float64 (3 / 4) \<and> is_float64 (7 / 8) \<and>
   exact_products 2 2 \<lparr>image_index = 0, class_id = 3, x_fraction = 5 / 8, y_fraction = 1 / 2\<rparr> \<and>
   exact_products 2 2 \<lparr>image_index = 0, class_id = 1, x_fraction = 3 / 4, y_fraction = 7 / 8\<rparr> \<and>
   label_cell [1, 2, 2, 4]
     \<lparr>image_index = 0, class_id = 3, x_fraction = 5 / 8, y_fraction = 1 / 2\<rparr> = Inr [0, 1, 1] \<and>
   label_cell [1, 2, 2, 4]
     \<lparr>image_index = 0, class_id = 1, x_fraction = 3 / 4, y_fraction = 7 / 8\<rparr> = Inr [0, 1, 1] \<and>
   (\<exists>g. build_target \<lparr>shape = [1, 2, 2, 4], data = (\<lambda>_. 0::real)\<rparr>
          [\<lparr>image_index = 0, class_id = 3, x_fraction = 5 / 8, y_fraction = 1 / 2\<rparr>,
           \<lparr>image_index = 0, class_id = 1, x_fraction = 3 / 4, y_fraction = 7 / 8\<rparr>] = Inr g \<and>
        shape g = [1, 2, 2, 4] \<and>
        data g [0, 1, 1, 0] = 0 \<and> data g [0, 1, 1, 1] = 1 \<and>
        data g [0, 1, 1, 2] = 0 \<and> data g [0, 1, 1, 3] = 1 \<and>
        data g [0, 0, 1, 0] = 1 \<and> data g [0, 0, 1, 1] = 0)"
proof -
  let ?P = "\<lparr>shape = [1, 2, 2, 4], data = (\<lambda>_. 0::real)\<rparr>"
  let ?a = "\<lparr>image_index = 0, class_id = 3, x_fraction = 5 / 8, y_fraction = 1 / 2\<rparr>"
  let ?b = "\<lparr>image_index = 0, class_id = 1, x_fraction = 3 / 4, y_fraction = 7 / 8\<rparr>"
  have v: "valid_label 1 4 ?a" "valid_label 1 4 ?b" by (simp_all add: valid_label_def)
  have e: "exact_products 2 2 ?a" "exact_products 2 2 ?b"
    by (simp_all add: exact_products_def float64_mul_eval[of _ _ 0] round_half_even_def)
  have f: "is_float64 (5 / 8)" "is_float64 (1 / 2)" "is_float64 (3 / 4)" "is_float64 (7 / 8)"
    by (simp_all add: is_float64_def float64_round_eval[of _ "- 1"] round_half_even_def)
  have vs: "0 < (2::nat) \<and> 0 < (2::nat) \<and> 0 < (4::nat) \<and>
      (\<forall>i\<in>set [?a, ?b]. valid_label 1 4 i \<and> exact_products 2 2 i)"
    using v e by simp
  have vf: "0 < (2::nat) \<and> 0 < (2::nat) \<and> 0 < (4::nat) \<and>
      (\<forall>i\<in>set [?a, ?b]. valid_label 1 4 i \<and>
         is_float64 (x_fraction i) \<and> is_float64 (y_fraction i))"
    using v f by simp
  have cls: "\<forall>i\<in>set [?a, ?b]. 1 \<le> py_int (class_id i) \<and> py_int (class_id i) \<le> int 4 - 1"
    by (simp add: py_int_def)
  have sh: "shape ?P = [1, 2, 2, 4]" by simp
  note t = build_target_cells[OF sh, of "[?a, ?b]"]
  from t vs obtain g where
    g: "build_target ?P [?a, ?b] = Inr g" "shape g = [1, 2, 2, 4]"
    and d: "\<And>cell c. in_bounds [1, 2, 2, 4] (cell @ [c]) \<Longrightarrow>
        data g (cell @ [c]) =
          (if c = 0
           then (if \<exists>i\<in>set [?a, ?b]. spec_cell 2 2 i = cell then 0 else 1)
           else (if \<exists>i\<in>set [?a, ?b]. spec_cell 2 2 i = cell \<and> nat \<lfloor>class_id i\<rfloor> = c
                 then 1 else 0))"
    by blast
  from t cls g(1) have r: "\<forall>i\<in>set [?a, ?b]. \<exists>cell. label_cell [1, 2, 2, 4] i = Inr cell"
    and d': "\<And>cell c. in_bounds [1, 2, 2, 4] (cell @ [c]) \<Longrightarrow>
        data g (cell @ [c]) =
          (if c = 0
           then (if \<exists>i\<in>set [?a, ?b]. label_cell [1, 2, 2, 4] i = Inr cell then 0 else 1)
           else (if \<exists>i\<in>set [?a, ?b]. label_cell [1, 2, 2, 4] i = Inr cell \<and>
                      py_int (class_id i) = int c
                 then 1 else 0))"
    by blast+
  from t vf have cf: "\<forall>i\<in>set [?a, ?b]. label_cell [1, 2, 2, 4] i =
          Inr [nat \<lfloor>image_index i\<rfloor>, nat \<lfloor>float64_mul (y_fraction i) (real 2)\<rfloor>,
               nat \<lfloor>float64_mul (x_fraction i) (real 2)\<rfloor>]"
    by blast
  have m: "float64_mul (1 / 2) 2 = 1" "float64_mul (5 / 8) 2 = 5 / 4"
    "float64_mul (7 / 8) 2 = 7 / 4" "float64_mul (3 / 4) 2 = 3 / 2"
    by (simp_all add: float64_mul_eval[of _ _ 0] round_half_even_def)
  have c: "label_cell [1, 2, 2, 4] ?a = Inr [0, 1, 1]" "label_cell [1, 2, 2, 4] ?b = Inr [0, 1, 1]"
    using cf by (simp_all add: m)
  have "data g [0, 1, 1, 0] = 0" using d[of "[0, 1, 1]" 0] by (simp add: in_bounds_def spec_cell_def)
  moreover have "data g [0, 1, 1, 1] = 1" using d[of "[0, 1, 1]" 1] by (simp add: in_bounds_def spec_cell_def)
  moreover have "data g [0, 1, 1, 2] = 0" using d[of "[0, 1, 1]" 2] by (simp add: in_bounds_def spec_cell_def)
  moreover have "data g [0, 1, 1, 3] = 1" using d'[of "[0, 1, 1]" 3] c by (simp add: in_bounds_def py_int_def)
  moreover have "data g [0, 0, 1, 0] = 1" using d'[of "[0, 0, 1]" 0] c by (simp add: in_bounds_def)
  moreover have "data g [0, 0, 1, 1] = 0" using d[of "[0, 0, 1]" 1] by (simp add: in_bounds_def spec_cell_def)
  ultimately show ?thesis using v f e c g by blast
qed

text \<open>
  C3 as stated fails in two ways.  A label of class 3 followed by a label of class 1 at
  the same cell leaves channels 1 and 3 set, not channel 1 alone.  And the cell is not
  always the floor of the product: for the float64 number next to 0.7, which is below
  0.7, and a grid of 10 columns the float64 product is 7, so the label is written to
  column 7, and column \<open>floor(x * W) = 6\<close> stays background.
\<close>

theorem build_target_last_label_not_alone:
  "map_sum id (\<lambda>g. (cell_vector g [0, 1, 1], one_hot (cell_vector g [0, 1, 1])))
     (build_target \<lparr>shape = [1, 2, 2, 4], data = (\<lambda>_. 0::real)\<rparr>
        [\<lparr>image_index = 0, class_id = 3, x_fraction = 5 / 8, y_fraction = 1 / 2\<rparr>,
         \<lparr>image_index = 0, class_id = 1, x_fraction = 3 / 4, y_fraction = 7 / 8\<rparr>]) =
   Inr ([0, 1, 0, 1], False) \<and>
   map_sum id (\<lambda>g. (cell_vector g [0, 0, 6], cell_vector g [0, 0, 7]))
     (build_target \<lparr>shape = [1, 1, 10, 2], data = (\<lambda>_. 0::real)\<rparr>
        [\<lparr>image_index = 0, class_id = 1, x_fraction = 6305039478318694 / 2 ^ 53,
          y_fraction = 0\<rparr>]) =
   Inr ([1, 0], [0, 1]) \<and>
   is_float64 (6305039478318694 / 2 ^ 53) \<and>
   spec_cell 1 10 \<lparr>image_index = 0, class_id = 1, x_fraction = 6305039478318694 / 2 ^ 53,
          y_fraction = 0\<rparr> = [0, 0, 6]"
proof -
  let ?a = "\<lparr>image_index = 0, class_id = 3, x_fraction = 5 / 8, y_fraction = 1 / 2\<rparr>"
  let ?b = "\<lparr>image_index = 0, class_id = 1, x_fraction = 3 / 4, y_fraction = 7 / 8\<rparr>"
  let ?c = "\<lparr>image_index = 0, class_id = 1, x_fraction = 6305039478318694 / 2 ^ 53,
          y_fraction = 0\<rparr>"
  have c: "label_cell [1, 2, 2, 4] ?a = Inr [0, 1, 1]" "label_cell [1, 2, 2, 4] ?b = Inr [0, 1, 1]"
    by (simp_all add: label_cell_def float64_mul_eval[of _ _ 0] round_half_even_def py_index_def
        py_int_def)
  have k: "py_index 4 (py_int (class_id ?a)) = Inr 3" "py_index 4 (py_int (class_id ?b)) = Inr 1"
    "py_index 2 (py_int (class_id ?c)) = Inr 1"
    by (simp_all add: py_index_def py_int_def)
  have 1: "build_target \<lparr>shape = [1, 2, 2, 4], data = (\<lambda>_. 0::real)\<rparr> [?a, ?b] =
    Inr \<lparr>shape = [1, 2, 2, 4],
        data = (\<lambda>idx. if last idx = 0 then 1 else 0)
          ([0, 1, 1, 0] := 0, [0, 1, 1, 3] := 1, [0, 1, 1, 0] := 0, [0, 1, 1, 1] := 1)\<rparr>"
    using build_target_two_labels[OF _ c(1) k(1) c(2) k(2),
        of "\<lparr>shape = [1, 2, 2, 4], data = (\<lambda>_. 0::real)\<rparr>"] by simp
  have cc: "label_cell [1, 1, 10, 2] ?c = Inr [0, 0, 7]"
    by (simp add: label_cell_def float64_mul_eval[of _ _ 2] float64_mul_zero round_half_even_def
        py_index_def py_int_def)
  have 2: "build_target \<lparr>shape = [1, 1, 10, 2], data = (\<lambda>_. 0::real)\<rparr> [?c] =
    Inr \<lparr>shape = [1, 1, 10, 2],
        data = (\<lambda>idx. if last idx = 0 then 1 else 0)([0, 0, 7, 0] := 0, [0, 0, 7, 1] := 1)\<rparr>"
    using build_target_one_label[OF _ cc k(3),
        of "\<lparr>shape = [1, 1, 10, 2], data = (\<lambda>_. 0::real)\<rparr>"] by simp
  have 3: "spec_cell 1 10 ?c = [0, 0, 6]"
    by (simp add: spec_cell_def)
  have 4: "is_float64 (6305039478318694 / 2 ^ 53)"
    by (simp add: is_float64_def float64_round_eval[of _ "- 1"] round_half_even_def)
  show ?thesis
    unfolding 1 2 3 using 4 by (simp add: cell_vector_def one_hot_def upt_0_4 upt_0_2)
qed

section \<open>Construction with a loss weight\<close>

lemma override_weight_undefined:
  "self ''weight_cls'' = None \<Longrightarrow> override_weight self iw = Inl (AttributeError, self)"
  by (cases iw) (simp add: override_weight_def getattr_def)

lemma foldS_override_weight:
  "self ''weight_cls'' = None \<Longrightarrow> xs \<noteq> [] \<Longrightarrow>
   foldS override_weight self xs = Inl (AttributeError, self)"
  by (cases xs) (simp_all add: override_weight_undefined)

lemma enumerate_eq_Nil: "enumerate n xs = [] \<longleftrightarrow> xs = []"
  by (cases xs) simp_all

text \<open>
  C10: when the base class leaves no attribute \<open>weight_cls\<close>, construction with a
  non-empty \<open>loss_weight\<close> raises \<open>AttributeError\<close>; the object at that moment holds the
  three attributes assigned so far and no loss module.  Hence construction succeeds only
  for \<open>loss_weight\<close> \<open>None\<close> or empty.
\<close>

theorem init_loss_weight_attribute_error:
  assumes "base ''weight_cls'' = None"
  shows "(ws \<noteq> [] \<longrightarrow>
           FomoHead_init base init_layers ic oc n cw (Some ws) =
             Inl (AttributeError,
                  base(''num_classes'' \<mapsto> PInt n, ''input_channels'' \<mapsto> PInts ic,
                       ''output_channels'' \<mapsto> PInts oc))) \<and>
         (\<forall>self. FomoHead_init base init_layers ic oc n cw lw = Inr self \<longrightarrow>
            lw = None \<or> lw = Some [])"
proof -
  let ?self = "base(''num_classes'' \<mapsto> PInt n, ''input_channels'' \<mapsto> PInts ic,
                       ''output_channels'' \<mapsto> PInts oc)"
  have u: "?self ''weight_cls'' = None" using assms by simp
  have fail: "FomoHead_init base init_layers ic oc n cw (Some xs) = Inl (AttributeError, ?self)"
    if "xs \<noteq> []" for xs
    using that u foldS_override_weight[of ?self "enumerate 0 xs"]
    by (simp add: FomoHead_init_def Let_def enumerate_eq_Nil)
  show ?thesis
  proof (intro conjI impI allI)
    assume "ws \<noteq> []"
    then show "FomoHead_init base init_layers ic oc n cw (Some ws) = Inl (AttributeError, ?self)"
      by (rule fail)
  next
    fix self
    assume ok: "FomoHead_init base init_layers ic oc n cw lw = Inr self"
    show "lw = None \<or> lw = Some []"
    proof (cases lw)
      case None
      then show ?thesis by simp
    next
      case (Some xs)
      with ok fail[of xs] show ?thesis by (cases "xs = []") auto
    qed
  qed
qed

theorem init_loss_weight_attribute_error_witness:
  "(Map.empty :: pyobj) ''weight_cls'' = None \<and> [1, 2 :: int] \<noteq> [] \<and>
   FomoHead_init Map.empty Inr [16] [21] 20 1 (Some [1, 2]) =
     Inl (AttributeError,
          [''num_classes'' \<mapsto> PInt 20, ''input_channels'' \<mapsto> PInts [16],
           ''output_channels'' \<mapsto> PInts [21]]) \<and>
   FomoHead_init Map.empty Inr [16] [21] 20 1 None =
     Inr [''num_classes'' \<mapsto> PInt 20, ''input_channels'' \<mapsto> PInts [16],
          ''output_channels'' \<mapsto> PInts [21], ''loss_cls'' \<mapsto> PLoss (Some 1),
          ''loss_bg'' \<mapsto> PLoss None, ''posit_offset'' \<mapsto> POffsets posit_offset]"
proof -
  have e: "(Map.empty :: pyobj) ''weight_cls'' = None" by simp
  have ok: "FomoHead_init Map.empty Inr [16] [21] 20 1 None =
     Inr [''num_classes'' \<mapsto> PInt 20, ''input_channels'' \<mapsto> PInts [16],
          ''output_channels'' \<mapsto> PInts [21], ''loss_cls'' \<mapsto> PLoss (Some 1),
          ''loss_bg'' \<mapsto> PLoss None, ''posit_offset'' \<mapsto> POffsets posit_offset]"
    by (simp add: FomoHead_init_def)
  from init_loss_weight_attribute_error[OF e, of "[1, 2]" Inr "[16]" "[21]" 20 1 None] ok
  show ?thesis by simp
qed

section \<open>Softmax and argmax\<close>

lemma argmax_from_mono:
  assumes "\<And>a b. f a < f b \<longleftrightarrow> a < b"
  shows "argmax_from (map f xs) k (f best) bi = argmax_from xs k best bi"
  by (induction xs arbitrary: k best bi) (simp_all add: assms)

lemma argmax_list_mono:
  assumes "\<And>a b. f a < f b \<longleftrightarrow> a < (b::real)"
  shows "argmax_list (map f v) = argmax_list v"
  by (cases v) (simp_all add: argmax_list_def argmax_from_mono[of f, OF assms])

lemma sum_list_exp_pos: "xs \<noteq> [] \<Longrightarrow> 0 < sum_list (map (\<lambda>x. exp (g x :: real)) xs)"
proof (induction xs)
  case Nil
  then show ?case by simp
next
  case (Cons a xs)
  have "0 \<le> sum_list (map (\<lambda>x. exp (g x)) xs)"
    by (rule sum_list_nonneg) auto
  moreover have "0 < exp (g a)" by simp
  ultimately show ?case by (simp add: add_pos_nonneg)
qed

text \<open>The exact softmax keeps the order of the logits of a cell.  This is a fact of the
  real-valued function only: it is used below to evaluate the class grid of concrete
  prediction maps, whose logits are 0 and 1.\<close>

lemma cell_vector_softmax:
  "cell_vector (softmax_last t) idx =
   map (\<lambda>x. exp x / sum_list (map (\<lambda>c. exp (data t (idx @ [c]))) [0..<last (shape t)]))
     (cell_vector t idx)"
  by (simp add: cell_vector_def softmax_last_def)

lemma argmax_cell_softmax:
  "argmax_list (cell_vector (softmax_last t) idx) = argmax_list (cell_vector t idx)"
proof (cases "last (shape t) = 0")
  case True
  then show ?thesis by (simp add: cell_vector_def softmax_last_def)
next
  case False
  let ?S = "sum_list (map (\<lambda>c. exp (data t (idx @ [c]))) [0..<last (shape t)])"
  from False have "[0..<last (shape t)] \<noteq> []" by simp
  then have S: "0 < ?S" by (rule sum_list_exp_pos)
  have "exp a / ?S < exp b / ?S \<longleftrightarrow> a < b" for a b :: real
    using S by (simp add: divide_less_cancel)
  then show ?thesis
    unfolding cell_vector_softmax by (rule argmax_list_mono)
qed

lemma argmax_last_softmax: "argmax_last (softmax_last t) = argmax_last t"
proof -
  have "shape (softmax_last t) = shape t" by (simp add: softmax_last_def)
  then show ?thesis by (simp add: argmax_last_def argmax_cell_softmax)
qed

section \<open>The bounds check of the matching pass\<close>

text \<open>
  C8: a site with a negative coordinate is skipped: the step for that cell and offset
  returns both class grids unchanged and raises nothing, whatever the grids hold; the
  site is neither wrapped to the far edge (as a negative index would be) nor clamped.
\<close>

theorem negative_site_skipped:
  assumes "vec_add ti po = Inr site" and "\<exists>x\<in>set site. x < 0"
  shows "match_site preds_index ti (preds_max, target_max) po = Inr (preds_max, target_max)"
  using assms by (simp add: match_site_def list_ex_iff)

theorem negative_site_skipped_witness:
  "vec_add [0, 0, 0] [0, - 1, 0] = Inr [0, - 1, 0] \<and>
   getitem \<lparr>shape = [1, 3, 3], data = (\<lambda>idx. if idx = [0, 2, 0] then 1 else (0::int))\<rparr>
     [0, - 1, 0] = Inr 1 \<and>
   match_site [[0, 2, 0]] [0, 0, 0]
     (\<lparr>shape = [1, 3, 3], data = (\<lambda>idx. if idx = [0, 2, 0] then 1 else 0)\<rparr>,
      \<lparr>shape = [1, 3, 3], data = (\<lambda>idx. if idx = [0, 0, 0] then 1 else 0)\<rparr>)
     [0, - 1, 0] =
   Inr (\<lparr>shape = [1, 3, 3], data = (\<lambda>idx. if idx = [0, 2, 0] then 1 else 0)\<rparr>,
        \<lparr>shape = [1, 3, 3], data = (\<lambda>idx. if idx = [0, 0, 0] then 1 else 0)\<rparr>)"
proof -
  have 1: "vec_add [0, 0, 0] [0, - 1, 0] = Inr [0, - 1, 0]" by (simp add: vec_add_def)
  have 2: "\<exists>x\<in>set [0, - 1, 0 :: int]. x < 0" by simp
  have 3: "getitem \<lparr>shape = [1, 3, 3], data = (\<lambda>idx. if idx = [0, 2, 0] then 1 else (0::int))\<rparr>
     [0, - 1, 0] = Inr 1"
    by (simp add: getitem_def py_index_def)
  from negative_site_skipped[OF 1 2] 1 3 show ?thesis by simp
qed

section \<open>The constant 11\<close>

lemma argmax_last_example:
  "argmax_last \<lparr>shape = [1, 2, 2, 2],
        data = (\<lambda>idx. if butlast idx = [0, 1, 1] then (if last idx = 1 then 1 else 0)
                      else (if last idx = 0 then 1 else (0::real)))\<rparr> =
   Inr \<lparr>shape = [1, 2, 2], data = (\<lambda>idx. if idx = [0, 1, 1] then 1 else 0)\<rparr>"
  by (auto simp add: argmax_last_def cell_vector_def upt_0_2 argmax_list_def)

lemma where_positive_example:
  "where_positive \<lparr>shape = [1, 2, 2], data = (\<lambda>idx. if idx = [0, 1, 1] then 1 else 0)\<rparr> =
   [[0, 1, 1]]"
  by (simp add: where_positive_def upt_0_2 upt_0_1)

lemma tolerant_matching_example:
  "tolerant_matching
     \<lparr>shape = [1, 2, 2], data = (\<lambda>idx. if idx = [0, 1, 1] then 1 else 0)\<rparr>
     \<lparr>shape = [1, 2, 2], data = (\<lambda>idx. if idx = [0, 1, 1] then 1 else 0)\<rparr> =
   Inl IndexError"
  unfolding tolerant_matching_def Let_def where_positive_example
  by (simp add: match_cell_def posit_offset_def match_site_def vec_add_def tensor_contains_def
     getitem_def setitem_def py_index_def)

text \<open>
  C2 fails on the code: the check compares every coordinate of the site with the constant
  11, not with the sizes of the grids.  On a 2 x 2 grid whose only object cell \<open>(0, 1, 1)\<close>
  is predicted exactly, the site \<open>(0, 2, 1)\<close> lies outside the grid, is not skipped, and
  reading it raises \<open>IndexError\<close>.  On a 13 x 13 grid the site \<open>(0, 12, 6)\<close> lies inside
  the grid and holds a matching prediction, and is skipped.
\<close>

theorem hard_coded_bound:
  "get_pricsion_recall_f1 1
     \<lparr>shape = [1, 2, 2, 2],
        data = (\<lambda>idx. if butlast idx = [0, 1, 1] then (if last idx = 1 then 1 else 0)
                      else (if last idx = 0 then 1 else 0))\<rparr>
     \<lparr>shape = [1, 2, 2, 2],
        data = (\<lambda>idx. if butlast idx = [0, 1, 1] then (if last idx = 1 then 1 else 0)
                      else (if last idx = 0 then 1 else 0))\<rparr> = Inl IndexError \<and>
   match_site [[0, 12, 6]] [0, 12, 5]
     (\<lparr>shape = [1, 13, 13], data = (\<lambda>idx. if idx = [0, 12, 6] then 1 else 0)\<rparr>,
      \<lparr>shape = [1, 13, 13], data = (\<lambda>idx. if idx = [0, 12, 5] then 1 else 0)\<rparr>)
     [0, 0, 1] =
   Inr (\<lparr>shape = [1, 13, 13], data = (\<lambda>idx. if idx = [0, 12, 6] then 1 else 0)\<rparr>,
        \<lparr>shape = [1, 13, 13], data = (\<lambda>idx. if idx = [0, 12, 5] then 1 else 0)\<rparr>)"
proof -
  have "get_pricsion_recall_f1 1
     \<lparr>shape = [1, 2, 2, 2],
        data = (\<lambda>idx. if butlast idx = [0, 1, 1] then (if last idx = 1 then 1 else 0)
                      else (if last idx = 0 then 1 else 0))\<rparr>
     \<lparr>shape = [1, 2, 2, 2],
        data = (\<lambda>idx. if butlast idx = [0, 1, 1] then (if last idx = 1 then 1 else 0)
                      else (if last idx = 0 then 1 else 0))\<rparr> = Inl IndexError"
    unfolding get_pricsion_recall_f1_def Let_def argmax_last_softmax argmax_last_example
      bindE.simps metrics_of_grids_def confusion_of_grids_def tolerant_matching_example
    by simp
  then show ?thesis
    by (simp add: match_site_def vec_add_def)
qed

section \<open>Counts from the confusion matrix\<close>

lemma sum_list_upt: "sum_list (map f [0..<n]) = (\<Sum>i<n. f i)"
  by (simp add: interv_sum_list_conv_sum_set_nat atLeast0LessThan)

lemma sum_list_concat_map:
  "sum_list (map f (concat (map g xs))) = sum_list (map (\<lambda>x. sum_list (map f (g x))) xs)"
  by (induction xs) simp_all

lemma sum_list_indices_Cons:
  "sum_list (map f (indices (d # ds))) = (\<Sum>i<d. sum_list (map (\<lambda>idx. f (i # idx)) (indices ds)))"
  by (simp add: sum_list_concat_map comp_def sum_list_upt[symmetric])

lemma np_sum_matrix:
  "shape a = [n, m] \<Longrightarrow> np_sum a = (\<Sum>i<n. \<Sum>j<m. data a [i, j])"
  by (simp add: np_sum_def flatten_def sum_list_indices_Cons del: indices.simps(2))

lemma sum_below:
  assumes "i \<le> (n::nat)"
  shows "(\<Sum>j<n. if j < i then f j else (0::int)) = (\<Sum>j<i. f j)"
proof -
  have "(\<Sum>j<n. if j < i then f j else 0) = sum f {j \<in> {..<n}. j < i}"
    by (rule sum.inter_filter[symmetric]) simp
  moreover have "{j \<in> {..<n}. j < i} = {..<i}" using assms by auto
  ultimately show ?thesis by simp
qed

lemma sum_above: "(\<Sum>j<(n::nat). if i < j then f j else (0::int)) = (\<Sum>j\<in>{i<..<n}. f j)"
proof -
  have "(\<Sum>j<n. if i < j then f j else 0) = sum f {j \<in> {..<n}. i < j}"
    by (rule sum.inter_filter[symmetric]) simp
  moreover have "{j \<in> {..<n}. i < j} = {i<..<n}" by auto
  ultimately show ?thesis by simp
qed

lemma np_tril_sum:
  assumes "shape a = [n, n]"
  shows "np_sum (np_tril a (- 1)) = spec_fn n a"
proof -
  have "np_sum (np_tril a (- 1)) = (\<Sum>i<n. \<Sum>j<n. if j < i then data a [i, j] else 0)"
    using assms by (subst np_sum_matrix[of _ n n]) (auto simp: np_tril_def intro!: sum.cong)
  also have "\<dots> = (\<Sum>i<n. \<Sum>j<i. data a [i, j])"
    by (intro sum.cong refl sum_below) simp
  finally show ?thesis by (simp add: spec_fn_def)
qed

lemma np_triu_sum:
  assumes "shape a = [n, n]"
  shows "np_sum (np_triu a 1) = spec_fp n a"
proof -
  have "np_sum (np_triu a 1) = (\<Sum>i<n. \<Sum>j<n. if i < j then data a [i, j] else 0)"
    using assms by (subst np_sum_matrix[of _ n n]) (auto simp: np_triu_def intro!: sum.cong)
  then show ?thesis by (simp add: sum_above spec_fp_def)
qed

lemma np_diagonal_sum:
  assumes "shape a = [n, n]"
  shows "sum_list (np_diagonal a) = (\<Sum>i<n. data a [i, i])"
  using assms by (simp add: np_diagonal_def sum_list_upt)

lemma metrics_of_confusion_spec:
  assumes "shape confusion = [n, n]" and "0 < n"
  shows "metrics_of_confusion confusion = Inr (spec_metrics n confusion)"
proof -
  have tn: "getitem confusion [0, 0] = Inr (data confusion [0, 0])"
    using assms by (simp add: getitem_def py_index_def)
  have tp: "sum_list (np_diagonal confusion) - data confusion [0, 0] = spec_tp n confusion"
    by (simp add: np_diagonal_sum[OF assms(1)] spec_tp_def spec_tn_def)
  show ?thesis
    unfolding metrics_of_confusion_def tn bindE.simps Let_def tp
      np_tril_sum[OF assms(1)] np_triu_sum[OF assms(1)] spec_metrics_def
    by (auto simp: true_div_def)
qed


lemma foldE_error:
  assumes "\<And>s x e. f s x = Inl e \<Longrightarrow> Q e"
  shows "foldE f s xs = Inl e \<Longrightarrow> Q e"
  by (induction xs arbitrary: s) (auto simp: bindE_Inl_iff dest: assms)

lemma getitem_error: "getitem t idx = Inl e \<Longrightarrow> e = IndexError"
  by (auto simp: getitem_def bindE_Inl_iff dest: py_indices_error)

lemma setitem_error: "setitem t idx v = Inl e \<Longrightarrow> e = IndexError"
  by (auto simp: setitem_def bindE_Inl_iff dest: py_indices_error)

lemma match_site_error:
  "match_site preds_index ti st po = Inl e \<Longrightarrow> e = IndexError \<or> e = RuntimeError"
  by (cases st)
     (auto simp: match_site_def bindE_Inl_iff vec_add_def
           split: if_splits dest: getitem_error setitem_error)

lemma tolerant_matching_error:
  "tolerant_matching preds_max target_max = Inl e \<Longrightarrow> e = IndexError \<or> e = RuntimeError"
  unfolding tolerant_matching_def Let_def
  by (erule foldE_error[rotated], unfold match_cell_def, erule foldE_error[rotated])
     (rule match_site_error)

lemma argmax_last_error: "argmax_last t = Inl e \<Longrightarrow> e = IndexError"
  by (auto simp: argmax_last_def split: if_splits)

lemma confusion_matrix_error: "confusion_matrix yt yp labels = Inl e \<Longrightarrow> e = ValueError"
  by (auto simp: confusion_matrix_def Let_def split: if_splits)

lemma confusion_matrix_shape:
  "confusion_matrix yt yp labels = Inr c \<Longrightarrow>
   shape c = [length labels, length labels] \<and> 0 < length labels"
  by (auto simp: confusion_matrix_def Let_def zeros_def split: if_splits)

lemma confusion_of_grids_error:
  "confusion_of_grids nc pm tm = Inl e \<Longrightarrow> e \<noteq> ZeroDivisionError"
  by (auto simp: confusion_of_grids_def bindE_Inl_iff
           dest: tolerant_matching_error confusion_matrix_error)

lemma confusion_of_grids_shape:
  "confusion_of_grids nc pm tm = Inr c \<Longrightarrow> shape c = [nc + 1, nc + 1]"
  by (auto simp: confusion_of_grids_def bindE_Inr_iff num_attrib_def
           dest!: confusion_matrix_shape)

lemma metrics_of_grids_spec:
  "metrics_of_grids nc pm tm =
     bindE (confusion_of_grids nc pm tm) (\<lambda>c. Inr (spec_metrics (nc + 1) c))"
proof (cases "confusion_of_grids nc pm tm")
  case (Inl e)
  then show ?thesis by (simp add: metrics_of_grids_def)
next
  case (Inr c)
  from confusion_of_grids_shape[OF Inr] have "metrics_of_confusion c = Inr (spec_metrics (nc + 1) c)"
    by (intro metrics_of_confusion_spec) simp_all
  with Inr show ?thesis by (simp add: metrics_of_grids_def)
qed

text \<open>
  C5: on an \<open>n \<times> n\<close> confusion matrix the code's counts (numpy's diagonal, \<open>tril\<close> with
  \<open>k = -1\<close>, \<open>triu\<close> with \<open>k = 1\<close>) are the specification's \<open>tn\<close>, \<open>tp\<close>, \<open>fn\<close>, \<open>fp\<close>, and
  the result is \<open>(0, 0, 0)\<close> when \<open>tp + fp = 0\<close> or \<open>tp + fn = 0\<close>, and otherwise
  \<open>P = tp / (tp + fp)\<close>, \<open>R = tp / (tp + fn)\<close>, \<open>F1 = 2PR / (P + R)\<close> (0 when \<open>P + R = 0\<close>).
  The metric function is: build the confusion matrix of the matched class grids (or raise
  there), then return these metrics of it; it never raises a division by zero.
\<close>

theorem metrics_from_confusion:
  "(shape confusion = [n, n] \<and> 0 < n \<longrightarrow>
      metrics_of_confusion confusion = Inr (spec_metrics n confusion)) \<and>
   get_pricsion_recall_f1 nc preds target =
     bindE (argmax_last target) (\<lambda>target_max.
     bindE (argmax_last (softmax_last preds)) (\<lambda>preds_max.
     bindE (confusion_of_grids nc preds_max target_max) (\<lambda>c.
     Inr (spec_metrics (nc + 1) c)))) \<and>
   get_pricsion_recall_f1 nc preds target \<noteq> Inl ZeroDivisionError"
proof (intro conjI impI)
  assume "shape confusion = [n, n] \<and> 0 < n"
  then show "metrics_of_confusion confusion = Inr (spec_metrics n confusion)"
    by (simp add: metrics_of_confusion_spec)
next
  show eq: "get_pricsion_recall_f1 nc preds target =
     bindE (argmax_last target) (\<lambda>target_max.
     bindE (argmax_last (softmax_last preds)) (\<lambda>preds_max.
     bindE (confusion_of_grids nc preds_max target_max) (\<lambda>c.
     Inr (spec_metrics (nc + 1) c))))"
    by (simp add: get_pricsion_recall_f1_def metrics_of_grids_spec)
  show "get_pricsion_recall_f1 nc preds target \<noteq> Inl ZeroDivisionError"
    unfolding eq
    by (auto simp: bindE_Inl_iff dest: argmax_last_error confusion_of_grids_error)
qed

lemma sum_lessThan_2: "(\<Sum>i<(2::nat). f i) = f 0 + (f 1 :: int)"
  by (simp add: numeral_2_eq_2)

lemma greaterThanLessThan_2: "{0<..<(2::nat)} = {1}" "{1<..<(2::nat)} = {}"
  by auto

theorem metrics_from_confusion_witness:
  "shape \<lparr>shape = [2, 2], data = (\<lambda>idx. if idx = [0, 0] then 5 else if idx = [0, 1] then 1
                                   else if idx = [1, 0] then 2 else (3::int))\<rparr> = [2, 2] \<and>
   0 < (2::nat) \<and>
   metrics_of_confusion
     \<lparr>shape = [2, 2], data = (\<lambda>idx. if idx = [0, 0] then 5 else if idx = [0, 1] then 1
                                   else if idx = [1, 0] then 2 else (3::int))\<rparr> =
     Inr (3 / 4, 3 / 5, 2 / 3) \<and>
   metrics_of_confusion
     \<lparr>shape = [2, 2], data = (\<lambda>idx. if idx = [0, 0] then 4 else if idx = [0, 1] then 0
                                   else if idx = [1, 0] then 2 else (0::int))\<rparr> =
     Inr (0, 0, 0)"
proof -
  let ?M = "\<lparr>shape = [2, 2], data = (\<lambda>idx. if idx = [0, 0] then 5 else if idx = [0, 1] then 1
                                   else if idx = [1, 0] then 2 else (3::int))\<rparr>"
  let ?Z = "\<lparr>shape = [2, 2], data = (\<lambda>idx. if idx = [0, 0] then 4 else if idx = [0, 1] then 0
                                   else if idx = [1, 0] then 2 else (0::int))\<rparr>"
  have m: "shape ?M = [2, 2] \<and> 0 < (2::nat)" by simp
  have z: "shape ?Z = [2, 2] \<and> 0 < (2::nat)" by simp
  have sm: "spec_metrics 2 ?M = (3 / 4, 3 / 5, 2 / 3)"
    by (simp add: spec_metrics_def spec_tp_def spec_tn_def spec_fn_def spec_fp_def
        sum_lessThan_2 greaterThanLessThan_2)
  have sz: "spec_metrics 2 ?Z = (0, 0, 0)"
    by (simp add: spec_metrics_def spec_tp_def spec_tn_def spec_fn_def spec_fp_def
        sum_lessThan_2 greaterThanLessThan_2)
  from metrics_from_confusion[of ?M 2] m sm have 1: "metrics_of_confusion ?M = Inr (3 / 4, 3 / 5, 2 / 3)"
    by simp
  from metrics_from_confusion[of ?Z 2] z sz have 2: "metrics_of_confusion ?Z = Inr (0, 0, 0)"
    by simp
  from 1 2 show ?thesis by simp
qed

section \<open>The counts as numbers of cells\<close>

lemma length_filter_or:
  "(\<And>x. x \<in> set xs \<Longrightarrow> \<not> (p x \<and> q x)) \<Longrightarrow>
   length (filter (\<lambda>x. p x \<or> q x) xs) = length (filter p xs) + length (filter q xs)"
  by (induction xs) auto

lemma sum_count_filter:
  assumes "finite J"
  shows "(\<Sum>j\<in>J. int (length (filter (\<lambda>x. g x = int j \<and> Q x) xs))) =
         int (length (filter (\<lambda>x. (\<exists>j\<in>J. g x = int j) \<and> Q x) xs))"
  using assms
proof (induction J)
  case empty
  then show ?case by simp
next
  case (insert k J)
  have "filter (\<lambda>x. (\<exists>j\<in>insert k J. g x = int j) \<and> Q x) xs =
        filter (\<lambda>x. (g x = int k \<and> Q x) \<or> ((\<exists>j\<in>J. g x = int j) \<and> Q x)) xs"
    by (rule filter_cong) auto
  moreover have "length (filter (\<lambda>x. (g x = int k \<and> Q x) \<or> ((\<exists>j\<in>J. g x = int j) \<and> Q x)) xs) =
        length (filter (\<lambda>x. g x = int k \<and> Q x) xs) +
        length (filter (\<lambda>x. (\<exists>j\<in>J. g x = int j) \<and> Q x) xs)"
    using insert.hyps(2) by (intro length_filter_or) auto
  ultimately show ?case using insert by simp
qed

lemma ex_lessThan_int: "(\<exists>j\<in>{..<m}. v = int j) \<longleftrightarrow> 0 \<le> v \<and> v < int m"
proof
  assume "0 \<le> v \<and> v < int m"
  then have "nat v \<in> {..<m}" "v = int (nat v)" by auto
  then show "\<exists>j\<in>{..<m}. v = int j" by blast
qed auto

lemma ex_between_int: "(\<exists>j\<in>{i<..<m}. v = int j) \<longleftrightarrow> int i < v \<and> v < int m"
proof
  assume "int i < v \<and> v < int m"
  then have "nat v \<in> {i<..<m}" "v = int (nat v)" by auto
  then show "\<exists>j\<in>{i<..<m}. v = int j" by blast
qed auto

lemma sum_count_below:
  "(\<Sum>j<m. int (length (filter (\<lambda>x. g x = int j \<and> Q x) xs))) =
   int (length (filter (\<lambda>x. 0 \<le> g x \<and> g x < int m \<and> Q x) xs))"
  by (simp add: sum_count_filter ex_lessThan_int conj_assoc)

lemma sum_count_between:
  "(\<Sum>j\<in>{i<..<m}. int (length (filter (\<lambda>x. g x = int j \<and> Q x) xs))) =
   int (length (filter (\<lambda>x. int i < g x \<and> g x < int m \<and> Q x) xs))"
  by (simp add: sum_count_filter ex_between_int conj_assoc)

lemma zip_flatten:
  "shape a = shape b \<Longrightarrow>
   zip (flatten a) (flatten b) = map (\<lambda>idx. (data a idx, data b idx)) (indices (shape a))"
  by (simp add: flatten_def zip_map_map zip_same_conv_map)

lemma confusion_matrix_entry:
  assumes "confusion_matrix (flatten tm) (flatten pm) (map int [0..<n]) = Inr c"
    and "shape tm = shp" and "shape pm = shp" and "i < n" and "j < n"
  shows "data c [i, j] = count_cells shp (\<lambda>idx. data tm idx = int i \<and> data pm idx = int j)"
proof -
  have z: "zip (flatten tm) (flatten pm) = map (\<lambda>idx. (data tm idx, data pm idx)) (indices shp)"
    using assms(2,3) by (simp add: zip_flatten)
  show ?thesis
  proof (cases "flatten tm = []")
    case True
    then have "indices shp = []" using assms(2) by (simp add: flatten_def)
    moreover from True assms(1) have "data c [i, j] = 0"
      by (auto simp: confusion_matrix_def Let_def zeros_def split: if_splits)
    ultimately show ?thesis by (simp add: count_cells_def)
  next
    case False
    with assms(1) have "data c [i, j] =
      int (length (filter (\<lambda>(t, p). t = map int [0..<n] ! i \<and> p = map int [0..<n] ! j)
             (zip (flatten tm) (flatten pm))))"
      by (auto simp: confusion_matrix_def Let_def split: if_splits)
    then show ?thesis
      using assms(4,5) by (simp add: z filter_map comp_def count_cells_def)
  qed
qed


lemma count_cells_cong:
  "(\<And>idx. idx \<in> set (indices shp) \<Longrightarrow> p idx = q idx) \<Longrightarrow>
   count_cells shp p = count_cells shp q"
  unfolding count_cells_def by (simp cong: filter_cong)

lemma count_cells_sum_below:
  "(\<Sum>j<m. count_cells shp (\<lambda>idx. g idx = int j \<and> q idx)) =
   count_cells shp (\<lambda>idx. 0 \<le> g idx \<and> g idx < int m \<and> q idx)"
  unfolding count_cells_def by (rule sum_count_below)

lemma count_cells_sum_between:
  "(\<Sum>j\<in>{i<..<m}. count_cells shp (\<lambda>idx. g idx = int j \<and> q idx)) =
   count_cells shp (\<lambda>idx. int i < g idx \<and> g idx < int m \<and> q idx)"
  unfolding count_cells_def by (rule sum_count_between)

lemma count_cells_or:
  "(\<And>idx. \<not> (p idx \<and> q idx)) \<Longrightarrow>
   count_cells shp (\<lambda>idx. p idx \<or> q idx) = count_cells shp p + count_cells shp q"
  unfolding count_cells_def by (simp add: length_filter_or)

lemma counts_of_confusion:
  assumes c: "confusion_matrix (flatten tm) (flatten pm) (map int [0..<n]) = Inr c"
    and tm: "shape tm = shp" and pm: "shape pm = shp"
  shows "spec_tp n c =
           count_cells shp (\<lambda>idx. data tm idx = data pm idx \<and> 0 < data tm idx \<and> data tm idx < int n)"
    and "spec_fn n c =
           count_cells shp (\<lambda>idx. 0 \<le> data pm idx \<and> data pm idx < data tm idx \<and> data tm idx < int n)"
    and "spec_fp n c =
           count_cells shp (\<lambda>idx. 0 \<le> data tm idx \<and> data tm idx < data pm idx \<and> data pm idx < int n)"
proof -
  note e = confusion_matrix_entry[OF c tm pm]
  from confusion_matrix_shape[OF c] have n: "0 < n" by simp
  \<comment> \<open>false negatives: below the diagonal\<close>
  have "spec_fn n c = (\<Sum>i<n. \<Sum>j<i. count_cells shp (\<lambda>idx. data pm idx = int j \<and> data tm idx = int i))"
    unfolding spec_fn_def
    by (intro sum.cong refl) (auto simp: e conj_commute)
  also have "\<dots> = (\<Sum>i<n. count_cells shp (\<lambda>idx. 0 \<le> data pm idx \<and> data pm idx < int i \<and>
                        data tm idx = int i))"
    by (simp only: count_cells_sum_below)
  also have "\<dots> = (\<Sum>i<n. count_cells shp (\<lambda>idx. data tm idx = int i \<and>
                        (0 \<le> data pm idx \<and> data pm idx < data tm idx)))"
    by (intro sum.cong refl count_cells_cong) auto
  also have "\<dots> = count_cells shp (\<lambda>idx. 0 \<le> data tm idx \<and> data tm idx < int n \<and>
                        (0 \<le> data pm idx \<and> data pm idx < data tm idx))"
    by (rule count_cells_sum_below)
  also have "\<dots> = count_cells shp (\<lambda>idx. 0 \<le> data pm idx \<and> data pm idx < data tm idx \<and> data tm idx < int n)"
    by (intro count_cells_cong) auto
  finally show "spec_fn n c =
    count_cells shp (\<lambda>idx. 0 \<le> data pm idx \<and> data pm idx < data tm idx \<and> data tm idx < int n)" .
  \<comment> \<open>false positives: above the diagonal\<close>
  have "spec_fp n c = (\<Sum>i<n. \<Sum>j\<in>{i<..<n}. count_cells shp (\<lambda>idx. data pm idx = int j \<and> data tm idx = int i))"
    unfolding spec_fp_def
    by (intro sum.cong refl) (auto simp: e conj_commute)
  also have "\<dots> = (\<Sum>i<n. count_cells shp (\<lambda>idx. int i < data pm idx \<and> data pm idx < int n \<and>
                        data tm idx = int i))"
    by (simp only: count_cells_sum_between)
  also have "\<dots> = (\<Sum>i<n. count_cells shp (\<lambda>idx. data tm idx = int i \<and>
                        (data tm idx < data pm idx \<and> data pm idx < int n)))"
    by (intro sum.cong refl count_cells_cong) auto
  also have "\<dots> = count_cells shp (\<lambda>idx. 0 \<le> data tm idx \<and> data tm idx < int n \<and>
                        (data tm idx < data pm idx \<and> data pm idx < int n))"
    by (rule count_cells_sum_below)
  also have "\<dots> = count_cells shp (\<lambda>idx. 0 \<le> data tm idx \<and> data tm idx < data pm idx \<and> data pm idx < int n)"
    by (intro count_cells_cong) auto
  finally show "spec_fp n c =
    count_cells shp (\<lambda>idx. 0 \<le> data tm idx \<and> data tm idx < data pm idx \<and> data pm idx < int n)" .
  \<comment> \<open>true positives: the diagonal without its first entry\<close>
  have "(\<Sum>i<n. data c [i, i]) =
        (\<Sum>i<n. count_cells shp (\<lambda>idx. data tm idx = int i \<and> data pm idx = data tm idx))"
    by (intro sum.cong refl) (auto simp: e intro!: count_cells_cong)
  also have "\<dots> = count_cells shp (\<lambda>idx. 0 \<le> data tm idx \<and> data tm idx < int n \<and> data pm idx = data tm idx)"
    by (rule count_cells_sum_below)
  also have "\<dots> = count_cells shp (\<lambda>idx. (data tm idx = 0 \<and> data pm idx = 0) \<or>
        (data tm idx = data pm idx \<and> 0 < data tm idx \<and> data tm idx < int n))"
    using n by (intro count_cells_cong) auto
  also have "\<dots> = count_cells shp (\<lambda>idx. data tm idx = 0 \<and> data pm idx = 0) +
        count_cells shp (\<lambda>idx. data tm idx = data pm idx \<and> 0 < data tm idx \<and> data tm idx < int n)"
    by (intro count_cells_or) auto
  finally have "(\<Sum>i<n. data c [i, i]) = data c [0, 0] +
        count_cells shp (\<lambda>idx. data tm idx = data pm idx \<and> 0 < data tm idx \<and> data tm idx < int n)"
    using e[OF n n] by simp
  then show "spec_tp n c =
    count_cells shp (\<lambda>idx. data tm idx = data pm idx \<and> 0 < data tm idx \<and> data tm idx < int n)"
    by (simp add: spec_tp_def spec_tn_def)
qed

section \<open>Cells of a grid\<close>

lemma in_bounds_Nil: "in_bounds [] idx \<longleftrightarrow> idx = []"
  by (simp add: in_bounds_def)

lemma in_bounds_Cons:
  "in_bounds (d # ds) idx \<longleftrightarrow> (\<exists>i r. idx = i # r \<and> i < d \<and> in_bounds ds r)"
  by (auto simp: in_bounds_def list_all2_Cons2)

lemma in_bounds_Cons_Cons: "in_bounds (d # ds) (i # r) \<longleftrightarrow> i < d \<and> in_bounds ds r"
  by (simp add: in_bounds_def)

lemma set_indices: "set (indices shp) = {idx. in_bounds shp idx}"
  by (induction shp) (auto simp: in_bounds_Nil in_bounds_Cons)

lemma indices_product_lists: "indices shp = product_lists (map (\<lambda>d. [0..<d]) shp)"
  by (induction shp) simp_all

lemma distinct_indices: "distinct (indices shp)"
  unfolding indices_product_lists by (rule distinct_product_lists) auto


lemma count_cells_zero:
  "count_cells shp p = 0 \<longleftrightarrow> (\<forall>idx. in_bounds shp idx \<longrightarrow> \<not> p idx)"
  by (auto simp: count_cells_def filter_empty_conv set_indices)

lemma count_cells_single:
  assumes "in_bounds shp a" and "\<And>idx. in_bounds shp idx \<Longrightarrow> p idx \<longleftrightarrow> idx = a"
  shows "count_cells shp p = 1"
proof -
  have "{x. p x} \<inter> set (indices shp) = {a}"
    using assms by (auto simp: set_indices)
  then show ?thesis
    by (simp add: count_cells_def distinct_length_filter[OF distinct_indices])
qed

lemma filter_single:
  assumes "distinct xs" and "a \<in> set xs" and "\<And>x. x \<in> set xs \<Longrightarrow> p x \<longleftrightarrow> x = a"
  shows "filter p xs = [a]"
  using assms
proof (induction xs)
  case Nil
  then show ?case by simp
next
  case (Cons x xs)
  show ?case
  proof (cases "x = a")
    case True
    then have "a \<notin> set xs" using Cons.prems(1) by simp
    then have "filter p xs = []" using Cons.prems(3) by (auto simp: filter_empty_conv)
    then show ?thesis using True Cons.prems(3) by simp
  next
    case False
    then have "filter p xs = [a]" using Cons by auto
    then show ?thesis using False Cons.prems(3) by simp
  qed
qed

lemma where_positive_single:
  assumes "in_bounds (shape t) a" and "\<And>idx. in_bounds (shape t) idx \<Longrightarrow> 0 < data t idx \<longleftrightarrow> idx = a"
  shows "where_positive t = [map int a]"
proof -
  have "filter (\<lambda>idx. 0 < data t idx) (indices (shape t)) = [a]"
    using assms by (intro filter_single distinct_indices) (auto simp: set_indices)
  then show ?thesis by (simp add: where_positive_def)
qed

lemma where_positive_member:
  "ti \<in> set (where_positive t) \<Longrightarrow>
   \<exists>idx. ti = map int idx \<and> in_bounds (shape t) idx \<and> 0 < data t idx"
  by (auto simp: where_positive_def set_indices)

section \<open>The first maximum\<close>

lemma argmax_from_range:
  "argmax_from xs k best bi = bi \<or>
   (k \<le> argmax_from xs k best bi \<and> argmax_from xs k best bi < k + length xs)"
proof (induction xs arbitrary: k best bi)
  case Nil
  then show ?case by simp
next
  case (Cons x xs)
  show ?case
    using Cons[of "Suc k" x k] Cons[of "Suc k" best bi] by auto
qed

lemma argmax_list_less: "v \<noteq> [] \<Longrightarrow> argmax_list v < length v"
proof (cases v)
  case Nil
  then show "v \<noteq> [] \<Longrightarrow> ?thesis" by simp
next
  case (Cons x xs)
  then show ?thesis using argmax_from_range[of xs 1 x 0] by (auto simp: argmax_list_def)
qed

lemma argmax_cell_less:
  "0 < last (shape t) \<Longrightarrow> argmax_list (cell_vector t idx) < last (shape t)"
  using argmax_list_less[of "cell_vector t idx"] by (simp add: cell_vector_def)

section \<open>The matching pass on equal class grids\<close>



lemma tensor_update_same: "data t n = v \<Longrightarrow> t\<lparr>data := (data t)(n := v)\<rparr> = t"
  by auto



lemma posit_offset_length: "po \<in> set posit_offset \<Longrightarrow> length po = 3"
  by (auto simp: posit_offset_def)

lemma site_in_grid:
  assumes "po \<in> set posit_offset" and "in_bounds [B, H, W] idx"
    and "12 \<le> H" and "12 \<le> W"
    and "\<not> list_ex (\<lambda>x. x < 0) (map2 (+) (map int idx) po)"
    and "\<not> list_ex (\<lambda>x. 11 < x) (map2 (+) (map int idx) po)"
  shows "\<exists>n. py_indices [B, H, W] (map2 (+) (map int idx) po) = Inr n"
proof -
  from assms(2) obtain b h w where idx: "idx = [b, h, w]" "b < B" "h < H" "w < W"
    by (auto simp: in_bounds_def list_all2_Cons2)
  show ?thesis
    using assms(1,3-) idx
    by (auto simp: posit_offset_def py_index_def)
qed


section \<open>Metrics of matched grids\<close>

lemma int_in_labels: "0 \<le> v \<Longrightarrow> v < int n \<Longrightarrow> v \<in> set (map int [0..<n])"
proof -
  assume "0 \<le> v" "v < int n"
  then have "v = int (nat v)" "nat v < n" by auto
  then show ?thesis by (metis atLeast0LessThan image_eqI lessThan_iff set_map set_upt)
qed

lemma confusion_matrix_ok:
  assumes "shape tm = shp" and "shape pm = shp"
    and "in_bounds shp a" and "0 \<le> data tm a" and "data tm a < int n"
  shows "\<exists>c. confusion_matrix (flatten tm) (flatten pm) (map int [0..<n]) = Inr c"
proof -
  have len: "length (flatten tm) = length (flatten pm)"
    using assms(1,2) by (simp add: flatten_def)
  have n: "n \<noteq> 0" using assms(4,5) by auto
  have "data tm a \<in> set (flatten tm)"
    using assms(1,3) by (auto simp: flatten_def set_indices)
  moreover have "data tm a \<in> set (map int [0..<n])"
    using assms(4,5) by (rule int_in_labels)
  ultimately have "list_ex (\<lambda>y. y \<in> set (map int [0..<n])) (flatten tm)"
    unfolding list_ex_iff by blast
  then show ?thesis
    using len n by (simp add: confusion_matrix_def Let_def)
qed

lemma metrics_of_matched:
  assumes m: "tolerant_matching pm tm = Inr (pm', tm')"
    and sh: "shape tm' = shp" "shape pm' = shp"
    and a: "in_bounds shp a" "0 \<le> data tm' a" "data tm' a < int (nc + 1)"
  shows "\<exists>c. confusion_of_grids nc pm tm = Inr c \<and>
     metrics_of_grids nc pm tm = Inr (spec_metrics (nc + 1) c) \<and>
     spec_tp (nc + 1) c =
       count_cells shp (\<lambda>idx. data tm' idx = data pm' idx \<and> 0 < data tm' idx \<and> data tm' idx < int (nc + 1)) \<and>
     spec_fn (nc + 1) c =
       count_cells shp (\<lambda>idx. 0 \<le> data pm' idx \<and> data pm' idx < data tm' idx \<and> data tm' idx < int (nc + 1)) \<and>
     spec_fp (nc + 1) c =
       count_cells shp (\<lambda>idx. 0 \<le> data tm' idx \<and> data tm' idx < data pm' idx \<and> data pm' idx < int (nc + 1))"
proof -
  from confusion_matrix_ok[OF sh a] obtain c where
    c: "confusion_matrix (flatten tm') (flatten pm') (map int [0..<nc + 1]) = Inr c" by blast
  then have cg: "confusion_of_grids nc pm tm = Inr c"
    using m by (simp add: confusion_of_grids_def num_attrib_def)
  then have "metrics_of_grids nc pm tm = Inr (spec_metrics (nc + 1) c)"
    by (simp add: metrics_of_grids_spec)
  with cg counts_of_confusion[OF c sh] show ?thesis by blast
qed


lemma argmax_last_Inr:
  "shape t = shp @ [C] \<Longrightarrow> 0 < C \<Longrightarrow>
   argmax_last t = Inr \<lparr>shape = shp, data = (\<lambda>idx. int (argmax_list (cell_vector t idx)))\<rparr>"
  by (simp add: argmax_last_def)

lemma confusion_matrix_empty:
  "indices shp = [] \<Longrightarrow> shape tm = shp \<Longrightarrow> shape pm = shp \<Longrightarrow> 0 < n \<Longrightarrow>
   \<exists>c. confusion_matrix (flatten tm) (flatten pm) (map int [0..<n]) = Inr c"
  by (simp add: confusion_matrix_def flatten_def Let_def)


lemma where_positive_none:
  assumes "\<And>idx. in_bounds (shape t) idx \<Longrightarrow> data t idx \<le> 0"
  shows "where_positive t = []"
proof -
  have "\<not> 0 < data t idx" if "idx \<in> set (indices (shape t))" for idx
    using assms[of idx] that by (simp add: set_indices)
  then show ?thesis by (simp add: where_positive_def filter_empty_conv)
qed

lemma spec_metrics_no_positive:
  "spec_tp n c = 0 \<Longrightarrow> spec_fp n c = 0 \<Longrightarrow> spec_metrics n c = (0, 0, 0)"
  by (simp add: spec_metrics_def)





section \<open>A prediction next to the true cell\<close>

lemma matching_neighbour:
  assumes sh: "shape pm = [B, H, W]" "shape tm = [B, H, W]"
    and sz: "0 < B" "7 \<le> H" "7 \<le> W"
    and tm: "\<And>idx. in_bounds [B, H, W] idx \<Longrightarrow> data tm idx = (if idx = [0, 5, 5] then 3 else 0)"
    and pm: "\<And>idx. in_bounds [B, H, W] idx \<Longrightarrow> data pm idx = (if idx = [0, 5, 6] then 3 else 0)"
  shows "tolerant_matching pm tm = Inr (pm, tm\<lparr>data := (data tm)([0, 5, 6] := 3)\<rparr>)"
proof -
  have b: "in_bounds [B, H, W] [0, y, x]" if "y < 7" "x < 7" for x y
    using that sz by (simp add: in_bounds_def)
  have wt: "where_positive tm = [map int [0, 5, 5]]"
    using sh b[of 5 5] by (intro where_positive_single) (auto simp: tm)
  have wp: "where_positive pm = [map int [0, 5, 6]]"
    using sh b[of 5 6] by (intro where_positive_single) (auto simp: pm)
  have ix: "py_indices [B, H, W] [0, int y, int x] = Inr [0, y, x]" if "y < 7" "x < 7" for x y
    using py_indices_nat[OF b[OF that]] by simp
  note ixs = ix[of 4 4, simplified] ix[of 4 5, simplified] ix[of 4 6, simplified]
    ix[of 5 4, simplified] ix[of 5 5, simplified] ix[of 5 6, simplified]
    ix[of 6 4, simplified] ix[of 6 5, simplified] ix[of 6 6, simplified]
  have tmv: "data tm [0, y, x] = (if [0, y, x] = [0, 5, 5] then 3 else 0)" if "y < 7" "x < 7" for x y
    using tm[OF b[OF that]] .
  have pmv: "data pm [0, y, x] = (if [0, y, x] = [0, 5, 6] then 3 else 0)" if "y < 7" "x < 7" for x y
    using pm[OF b[OF that]] .
  note vals = tmv[of 4 4, simplified] tmv[of 4 5, simplified] tmv[of 4 6, simplified]
    tmv[of 5 4, simplified] tmv[of 5 5, simplified] tmv[of 5 6, simplified]
    tmv[of 6 4, simplified] tmv[of 6 5, simplified] tmv[of 6 6, simplified]
    pmv[of 4 4, simplified] pmv[of 4 5, simplified] pmv[of 4 6, simplified]
    pmv[of 5 4, simplified] pmv[of 5 5, simplified] pmv[of 5 6, simplified]
    pmv[of 6 4, simplified] pmv[of 6 5, simplified] pmv[of 6 6, simplified]
  have same: "pm\<lparr>data := (data pm)([0, 5, 6] := 3)\<rparr> = pm"
    by (rule tensor_update_same) (simp add: vals)
  show ?thesis
    unfolding tolerant_matching_def Let_def wt wp
    by (simp add: match_cell_def posit_offset_def match_site_def vec_add_def tensor_contains_def
        getitem_def setitem_def sh ixs vals same)
qed


lemma metrics_neighbour:
  assumes sh: "shape pm = [B, H, W]" "shape tm = [B, H, W]"
    and sz: "0 < B" "7 \<le> H" "7 \<le> W" "3 \<le> nc"
    and tm: "\<And>idx. in_bounds [B, H, W] idx \<Longrightarrow> data tm idx = (if idx = [0, 5, 5] then 3 else 0)"
    and pm: "\<And>idx. in_bounds [B, H, W] idx \<Longrightarrow> data pm idx = (if idx = [0, 5, 6] then 3 else 0)"
  shows "\<exists>c. confusion_of_grids nc pm tm = Inr c \<and>
           spec_tp (nc + 1) c = 1 \<and> spec_fp (nc + 1) c = 0 \<and> spec_fn (nc + 1) c = 1 \<and>
           metrics_of_grids nc pm tm = Inr (1, 1 / 2, 2 / 3)"
proof -
  let ?tm' = "tm\<lparr>data := (data tm)([0, 5, 6] := 3)\<rparr>"
  have m: "tolerant_matching pm tm = Inr (pm, ?tm')"
    by (rule matching_neighbour[OF sh sz(1-3) tm pm])
  have b55: "in_bounds [B, H, W] [0, 5, 5]" and b56: "in_bounds [B, H, W] [0, 5, 6]"
    using sz by (simp_all add: in_bounds_def)
  have tv: "data ?tm' idx = (if idx = [0, 5, 6] \<or> idx = [0, 5, 5] then 3 else 0)"
    if "in_bounds [B, H, W] idx" for idx
    using tm[OF that] tm[OF b55] by auto
  have sh': "shape ?tm' = [B, H, W]" using sh by simp
  from metrics_of_matched[OF m sh' sh(1), of "[0, 5, 5]" nc] b55 tv[OF b55] sz(4) obtain c where
    cg: "confusion_of_grids nc pm tm = Inr c"
    and c: "metrics_of_grids nc pm tm = Inr (spec_metrics (nc + 1) c)"
    and tp: "spec_tp (nc + 1) c =
      count_cells [B, H, W] (\<lambda>idx. data ?tm' idx = data pm idx \<and> 0 < data ?tm' idx \<and> data ?tm' idx < int (nc + 1))"
    and fn: "spec_fn (nc + 1) c =
      count_cells [B, H, W] (\<lambda>idx. 0 \<le> data pm idx \<and> data pm idx < data ?tm' idx \<and> data ?tm' idx < int (nc + 1))"
    and fp: "spec_fp (nc + 1) c =
      count_cells [B, H, W] (\<lambda>idx. 0 \<le> data ?tm' idx \<and> data ?tm' idx < data pm idx \<and> data pm idx < int (nc + 1))"
    by auto
  have tp1: "spec_tp (nc + 1) c = 1"
    unfolding tp using sz(4) by (intro count_cells_single[OF b56]) (auto simp: tv tm pm)
  have fn1: "spec_fn (nc + 1) c = 1"
    unfolding fn using sz(4) by (intro count_cells_single[OF b55]) (auto simp: tv tm pm)
  have fp0: "spec_fp (nc + 1) c = 0"
    unfolding fp count_cells_zero by (auto simp: tv tm pm)
  have "spec_metrics (nc + 1) c = (1, 1 / 2, 2 / 3)"
    unfolding spec_metrics_def tp1 fn1 fp0 by simp
  then show ?thesis using cg c tp1 fn1 fp0 by auto
qed


text \<open>
  C6 (as amended): the target grid has one object cell, \<open>(0, 5, 5)\<close> of class 3, and the
  prediction has one non-background cell, \<open>(0, 5, 6)\<close> of class 3, on a grid of at least
  7 rows and 7 columns with at least 3 classes.  The matching pass writes class 3 into
  the target grid at \<open>(0, 5, 6)\<close>, so the counts are \<open>tp = 1\<close> and \<open>fp = 0\<close>: the
  predicted cell is a true positive and there is no false positive.  The true cell
  \<open>(0, 5, 5)\<close> itself keeps its label against a background prediction, so \<open>fn = 1\<close>,
  and the result is \<open>P = 1\<close>, \<open>R = 1/2\<close>, \<open>F1 = 2/3\<close>.
\<close>

theorem neighbour_is_true_positive:
  assumes "shape preds = [B, H, W, nc + 1]" and "shape target = [B, H, W, nc + 1]"
    and "0 < B" and "7 \<le> H" and "7 \<le> W" and "3 \<le> nc"
    and "\<forall>idx. in_bounds [B, H, W] idx \<longrightarrow>
           argmax_list (cell_vector target idx) = (if idx = [0, 5, 5] then 3 else 0)"
    and "\<forall>idx. in_bounds [B, H, W] idx \<longrightarrow>
           argmax_list (cell_vector (softmax_last preds) idx) = (if idx = [0, 5, 6] then 3 else 0)"
  shows "\<exists>target_max preds_max c.
           argmax_last target = Inr target_max \<and>
           argmax_last (softmax_last preds) = Inr preds_max \<and>
           confusion_of_grids nc preds_max target_max = Inr c \<and>
           spec_tp (nc + 1) c = 1 \<and> spec_fp (nc + 1) c = 0 \<and> spec_fn (nc + 1) c = 1 \<and>
           get_pricsion_recall_f1 nc preds target = Inr (1, 1 / 2, 2 / 3)"
proof -
  let ?tm = "\<lparr>shape = [B, H, W], data = (\<lambda>idx. int (argmax_list (cell_vector target idx)))\<rparr>"
  let ?pm = "\<lparr>shape = [B, H, W],
               data = (\<lambda>idx. int (argmax_list (cell_vector (softmax_last preds) idx)))\<rparr>"
  have t: "argmax_last target = Inr ?tm"
    using assms(2) argmax_last_Inr[of target "[B, H, W]" "nc + 1"] by simp
  have "shape (softmax_last preds) = [B, H, W] @ [nc + 1]"
    using assms(1) by (simp add: softmax_last_def)
  then have p: "argmax_last (softmax_last preds) = Inr ?pm"
    using argmax_last_Inr[of "softmax_last preds" "[B, H, W]" "nc + 1"] by simp
  have g: "get_pricsion_recall_f1 nc preds target = metrics_of_grids nc ?pm ?tm"
    by (simp add: get_pricsion_recall_f1_def t p)
  have tv: "data ?tm idx = (if idx = [0, 5, 5] then 3 else 0)" if "in_bounds [B, H, W] idx" for idx
    using assms(7) that by simp
  have pv: "data ?pm idx = (if idx = [0, 5, 6] then 3 else 0)" if "in_bounds [B, H, W] idx" for idx
    using assms(8) that by simp
  have sh: "shape ?pm = [B, H, W]" "shape ?tm = [B, H, W]" by simp_all
  from metrics_neighbour[OF sh assms(3-6) tv pv] obtain c where
    "confusion_of_grids nc ?pm ?tm = Inr c" "spec_tp (nc + 1) c = 1" "spec_fp (nc + 1) c = 0"
    "spec_fn (nc + 1) c = 1" "metrics_of_grids nc ?pm ?tm = Inr (1, 1 / 2, 2 / 3)"
    by blast
  with t p g show ?thesis by auto
qed

theorem neighbour_is_true_positive_witness:
  "shape \<lparr>shape = [1, 7, 7, 4],
      data = (\<lambda>idx. if butlast idx = [0, 5, 5] then (if last idx = 3 then 1 else 0)
                    else (if last idx = 0 then 1 else (0::real)))\<rparr> = [1, 7, 7, 3 + 1] \<and>
   (0::nat) < 1 \<and> (7::nat) \<le> 7 \<and> (3::nat) \<le> 3 \<and>
   get_pricsion_recall_f1 3
     \<lparr>shape = [1, 7, 7, 4],
        data = (\<lambda>idx. if butlast idx = [0, 5, 6] then (if last idx = 3 then 4 else 0)
                      else (if last idx = 0 then 2 else 0))\<rparr>
     \<lparr>shape = [1, 7, 7, 4],
        data = (\<lambda>idx. if butlast idx = [0, 5, 5] then (if last idx = 3 then 1 else 0)
                      else (if last idx = 0 then 1 else 0))\<rparr> = Inr (1, 1 / 2, 2 / 3)"
proof -
  let ?p = "\<lparr>shape = [1, 7, 7, 4],
        data = (\<lambda>idx. if butlast idx = [0, 5, 6] then (if last idx = 3 then 4 else 0)
                      else (if last idx = 0 then 2 else (0::real)))\<rparr>"
  let ?t = "\<lparr>shape = [1, 7, 7, 4],
        data = (\<lambda>idx. if butlast idx = [0, 5, 5] then (if last idx = 3 then 1 else 0)
                      else (if last idx = 0 then 1 else (0::real)))\<rparr>"
  have 1: "shape ?p = [1, 7, 7, 3 + 1]" by simp
  have 2: "shape ?t = [1, 7, 7, 3 + 1]" by simp
  have 7: "\<forall>idx. in_bounds [1, 7, 7] idx \<longrightarrow>
           argmax_list (cell_vector ?t idx) = (if idx = [0, 5, 5] then 3 else 0)"
    by (simp add: cell_vector_def upt_0_4 argmax_list_def)
  have 8: "\<forall>idx. in_bounds [1, 7, 7] idx \<longrightarrow>
           argmax_list (cell_vector (softmax_last ?p) idx) = (if idx = [0, 5, 6] then 3 else 0)"
    by (simp only: argmax_cell_softmax) (simp add: cell_vector_def upt_0_4 argmax_list_def)
  from neighbour_is_true_positive[OF 1 2 _ _ _ _ 7 8]
  have "get_pricsion_recall_f1 3 ?p ?t = Inr (1, 1 / 2, 2 / 3)" by auto
  then show ?thesis by simp
qed

lemma matching_neighbour_six_rows:
  assumes sh: "shape pm = [1, 6, 7]" "shape tm = [1, 6, 7]"
    and tm: "\<And>idx. in_bounds [1, 6, 7] idx \<Longrightarrow> data tm idx = (if idx = [0, 5, 5] then 3 else 0)"
    and pm: "\<And>idx. in_bounds [1, 6, 7] idx \<Longrightarrow> data pm idx = (if idx = [0, 5, 6] then 3 else 0)"
  shows "tolerant_matching pm tm = Inl IndexError"
proof -
  have b: "in_bounds [1, 6, 7] [0, y, x]" if "y < 6" "x < 7" for x y
    using that by (simp add: in_bounds_def)
  have wt: "where_positive tm = [map int [0, 5, 5]]"
    using sh b[of 5 5] by (intro where_positive_single) (auto simp: tm)
  have wp: "where_positive pm = [map int [0, 5, 6]]"
    using sh b[of 5 6] by (intro where_positive_single) (auto simp: pm)
  have ix: "py_indices [1, 6, 7] [0, int y, int x] = Inr [0, y, x]" if "y < 6" "x < 7" for x y
    using py_indices_nat[OF b[OF that]] by simp
  note ixs = ix[of 4 4, simplified] ix[of 4 5, simplified] ix[of 5 4, simplified]
    ix[of 5 5, simplified]
  have tmv: "data tm [0, y, x] = (if [0, y, x] = [0, 5, 5] then 3 else 0)" if "y < 6" "x < 7" for x y
    using tm[OF b[OF that]] .
  have pmv: "data pm [0, y, x] = (if [0, y, x] = [0, 5, 6] then 3 else 0)" if "y < 6" "x < 7" for x y
    using pm[OF b[OF that]] .
  note vals = tmv[of 4 4, simplified] tmv[of 4 5, simplified] tmv[of 5 4, simplified]
    tmv[of 5 5, simplified]
    pmv[of 4 4, simplified] pmv[of 4 5, simplified] pmv[of 5 4, simplified]
    pmv[of 5 5, simplified]
  show ?thesis
    unfolding tolerant_matching_def Let_def wt wp
    by (simp add: match_cell_def posit_offset_def match_site_def vec_add_def tensor_contains_def
        getitem_def setitem_def sh ixs vals py_index_def)
qed

text \<open>
  C6 as stated fails: on a grid of 6 rows and 7 columns, which holds both cells, the
  offset \<open>(0, 1, 0)\<close> leads from the true cell to row 6, the site is not skipped, and the
  read of the class grid there raises \<open>IndexError\<close>: nothing is counted.  And where the
  function returns, on a grid of 7 rows and 7 columns, the recall is \<open>1/2\<close>: the true cell
  is counted as a false negative next to the true positive.
\<close>

theorem neighbour_on_six_rows_raises:
  "get_pricsion_recall_f1 3
     \<lparr>shape = [1, 6, 7, 4],
        data = (\<lambda>idx. if butlast idx = [0, 5, 6] then (if last idx = 3 then 4 else 0)
                      else (if last idx = 0 then 2 else 0))\<rparr>
     \<lparr>shape = [1, 6, 7, 4],
        data = (\<lambda>idx. if butlast idx = [0, 5, 5] then (if last idx = 3 then 1 else 0)
                      else (if last idx = 0 then 1 else 0))\<rparr> = Inl IndexError \<and>
   get_pricsion_recall_f1 3
     \<lparr>shape = [1, 7, 7, 4],
        data = (\<lambda>idx. if butlast idx = [0, 5, 6] then (if last idx = 3 then 4 else 0)
                      else (if last idx = 0 then 2 else 0))\<rparr>
     \<lparr>shape = [1, 7, 7, 4],
        data = (\<lambda>idx. if butlast idx = [0, 5, 5] then (if last idx = 3 then 1 else 0)
                      else (if last idx = 0 then 1 else 0))\<rparr> = Inr (1, 1 / 2, 2 / 3)"
proof -
  let ?p = "\<lparr>shape = [1, 6, 7, 4],
        data = (\<lambda>idx. if butlast idx = [0, 5, 6] then (if last idx = 3 then 4 else 0)
                      else (if last idx = 0 then 2 else (0::real)))\<rparr>"
  let ?t = "\<lparr>shape = [1, 6, 7, 4],
        data = (\<lambda>idx. if butlast idx = [0, 5, 5] then (if last idx = 3 then 1 else 0)
                      else (if last idx = 0 then 1 else (0::real)))\<rparr>"
  let ?p7 = "\<lparr>shape = [1, 7, 7, 4],
        data = (\<lambda>idx. if butlast idx = [0, 5, 6] then (if last idx = 3 then 4 else 0)
                      else (if last idx = 0 then 2 else (0::real)))\<rparr>"
  let ?t7 = "\<lparr>shape = [1, 7, 7, 4],
        data = (\<lambda>idx. if butlast idx = [0, 5, 5] then (if last idx = 3 then 1 else 0)
                      else (if last idx = 0 then 1 else (0::real)))\<rparr>"
  let ?tm = "\<lparr>shape = [1, 6, 7], data = (\<lambda>idx. int (argmax_list (cell_vector ?t idx)))\<rparr>"
  let ?pm = "\<lparr>shape = [1, 6, 7], data = (\<lambda>idx. int (argmax_list (cell_vector ?p idx)))\<rparr>"
  have t: "argmax_last ?t = Inr ?tm"
    using argmax_last_Inr[of ?t "[1, 6, 7]" 4] by simp
  have p: "argmax_last (softmax_last ?p) = Inr ?pm"
    unfolding argmax_last_softmax using argmax_last_Inr[of ?p "[1, 6, 7]" 4] by simp
  have "tolerant_matching ?pm ?tm = Inl IndexError"
    by (rule matching_neighbour_six_rows)
       (simp_all add: cell_vector_def upt_0_4 argmax_list_def)
  then have 1: "get_pricsion_recall_f1 3 ?p ?t = Inl IndexError"
    unfolding get_pricsion_recall_f1_def Let_def t p
    by (simp add: metrics_of_grids_def confusion_of_grids_def)
  let ?tm7 = "\<lparr>shape = [1, 7, 7], data = (\<lambda>idx. int (argmax_list (cell_vector ?t7 idx)))\<rparr>"
  let ?pm7 = "\<lparr>shape = [1, 7, 7], data = (\<lambda>idx. int (argmax_list (cell_vector ?p7 idx)))\<rparr>"
  have t7: "argmax_last ?t7 = Inr ?tm7"
    using argmax_last_Inr[of ?t7 "[1, 7, 7]" 4] by simp
  have p7: "argmax_last (softmax_last ?p7) = Inr ?pm7"
    unfolding argmax_last_softmax using argmax_last_Inr[of ?p7 "[1, 7, 7]" 4] by simp
  have "\<exists>c. confusion_of_grids 3 ?pm7 ?tm7 = Inr c \<and>
           spec_tp (3 + 1) c = 1 \<and> spec_fp (3 + 1) c = 0 \<and> spec_fn (3 + 1) c = 1 \<and>
           metrics_of_grids 3 ?pm7 ?tm7 = Inr (1, 1 / 2, 2 / 3)"
    by (rule metrics_neighbour[of ?pm7 1 7 7 ?tm7 3])
       (simp_all add: cell_vector_def upt_0_4 argmax_list_def)
  then have 2: "get_pricsion_recall_f1 3 ?p7 ?t7 = Inr (1, 1 / 2, 2 / 3)"
    unfolding get_pricsion_recall_f1_def Let_def t7 p7 by auto
  from 1 2 show ?thesis by (rule conjI)
qed

section \<open>The loss\<close>

lemma sum_list_upt_real: "sum_list (map f [0..<n]) = (\<Sum>i<n. (f i :: real))"
  by (simp add: interv_sum_list_conv_sum_set_nat atLeast0LessThan)

lemma sum_list_concat_map_real:
  "sum_list (map f (concat (map g xs))) = sum_list (map (\<lambda>x. sum_list (map f (g x)) :: real) xs)"
  by (induction xs) simp_all

lemma sum_list_indices_Cons_real:
  "sum_list (map f (indices (d # ds))) =
   (\<Sum>i<d. sum_list (map (\<lambda>idx. f (i # idx)) (indices ds)) :: real)"
  by (simp add: sum_list_concat_map_real comp_def sum_list_upt_real[symmetric])

lemma sum_list_indices4:
  "sum_list (map f (indices [B, H, W, C])) =
   (\<Sum>b<B. \<Sum>h<H. \<Sum>w<W. \<Sum>c<C. (f [b, h, w, c] :: real))"
  by (simp add: sum_list_indices_Cons_real del: indices.simps(2))

lemma length_indices: "length (indices shp) = prod_list shp"
  by (induction shp) (simp_all add: length_concat comp_def sum_list_triv)

lemma torch_mean_spec:
  assumes "shape t = [B, H, W, C]"
  shows "torch_mean t = spec_mean B H W C (data t)"
proof -
  have len: "length (indices [B, H, W, C]) = B * H * W * C"
    by (simp add: length_indices mult.assoc del: indices.simps)
  then have empty: "indices [B, H, W, C] = [] \<longleftrightarrow> B * H * W * C = 0"
    by (metis length_0_conv)
  show ?thesis
    unfolding torch_mean_def flatten_def Let_def spec_mean_def assms
    by (simp add: empty len sum_list_indices4 del: indices.simps)
qed


lemma build_target_shape: "build_target preds targets = Inr g \<Longrightarrow> shape g = shape preds"
  by (auto simp: build_target_Inr dest: mark_labels_shape)

lemma mask_value:
  assumes "in_bounds [B, H, W, A] idx"
  shows "data (tile_HW1 \<lparr>shape = [A], data = (\<lambda>_. 0)([0] := 1)\<rparr> H W)
           (broadcast_index [H, W, A] idx) = (if last idx = 0 then 1 else 0)"
proof -
  from assms obtain b h w c where idx: "idx = [b, h, w, c]" "c < A"
    by (auto simp: in_bounds_def list_all2_Cons2)
  then show ?thesis
    by (auto simp: tile_HW1_def broadcast_index_def)
qed

lemma bindE_assoc: "bindE (bindE m f) g = bindE m (\<lambda>x. bindE (f x) g)"
  by (cases m) simp_all

lemma loss_terms:
  assumes "shape preds = [B, H, W, C]" and "shape d = [B, H, W, C]"
    and "wm = tile_HW1 \<lparr>shape = [C], data = (\<lambda>_. 0)([0] := 1)\<rparr> H W"
  shows "bindE (BCEWithLogitsLoss pw preds d) (\<lambda>l. imul l wm) =
           Inr \<lparr>shape = [B, H, W, C],
                data = (\<lambda>idx. bce_with_logits (case pw of None \<Rightarrow> 1 | Some w \<Rightarrow> w)
                         (data preds idx) (data d idx) * data wm (broadcast_index [H, W, C] idx))\<rparr>"
    and "bindE (BCEWithLogitsLoss pw preds d) (\<lambda>l. imul l (rsub 1 wm)) =
           Inr \<lparr>shape = [B, H, W, C],
                data = (\<lambda>idx. bce_with_logits (case pw of None \<Rightarrow> 1 | Some w \<Rightarrow> w)
                         (data preds idx) (data d idx) *
                         (1 - data wm (broadcast_index [H, W, C] idx)))\<rparr>"
  using assms
  by (simp_all add: BCEWithLogitsLoss_def imul_def broadcastable_def tile_HW1_def rsub_def)

lemma lossFunction_Inr:
  assumes "shape pred_maps = [B, num_classes self + 1, H, W]"
  shows "lossFunction self pred_maps target = Inr res \<longleftrightarrow>
    (\<exists>preds d wm p r f1.
       permute_0231 pred_maps = Inr preds \<and> shape preds = [B, H, W, num_classes self + 1] \<and>
       build_target preds target = Inr d \<and>
       wm = tile_HW1 \<lparr>shape = [num_classes self + 1], data = (\<lambda>_. 0)([0] := 1)\<rparr> H W \<and>
       get_pricsion_recall_f1 (num_classes self) preds d = Inr (p, r, f1) \<and>
       res = \<lparr>loss = torch_mean
                \<lparr>shape = [B, H, W, num_classes self + 1],
                   data = (\<lambda>idx.
                     bce_with_logits (cls_weight self) (data preds idx) (data d idx) *
                       (1 - data wm (broadcast_index [H, W, num_classes self + 1] idx)) +
                     bce_with_logits 1 (data preds idx) (data d idx) *
                       data wm (broadcast_index [H, W, num_classes self + 1] idx))\<rparr>,
              fgnd = \<lparr>shape = [B, H, W, num_classes self + 1],
                   data = (\<lambda>idx.
                     bce_with_logits (cls_weight self) (data preds idx) (data d idx) *
                       (1 - data wm (broadcast_index [H, W, num_classes self + 1] idx)))\<rparr>,
              bgnd = \<lparr>shape = [B, H, W, num_classes self + 1],
                   data = (\<lambda>idx.
                     bce_with_logits 1 (data preds idx) (data d idx) *
                       data wm (broadcast_index [H, W, num_classes self + 1] idx))\<rparr>,
              P = p, R = r, F1 = f1\<rparr>)"
proof -
  let ?C = "num_classes self + 1"
  let ?preds = "\<lparr>shape = [B, H, W, ?C],
                 data = (\<lambda>idx. data pred_maps [idx ! 0, idx ! 3, idx ! 1, idx ! 2])\<rparr>"
  let ?wm = "tile_HW1 \<lparr>shape = [?C], data = (\<lambda>_. 0::real)([0] := 1)\<rparr> H W"
  have perm: "permute_0231 pred_maps = Inr ?preds"
    using assms by (simp add: permute_0231_def)
  have w: "setitem (zeros [num_attrib (num_classes self)]) [0] (1::real) =
           Inr \<lparr>shape = [?C], data = (\<lambda>_. 0)([0] := 1)\<rparr>"
    by (simp add: setitem_def zeros_def num_attrib_def py_index_def)
  have body: "lossFunction self pred_maps target =
    bindE (build_target ?preds target) (\<lambda>d.
      bindE (bindE (loss_bg self ?preds d) (\<lambda>l. imul l ?wm)) (\<lambda>bg_loss.
      bindE (bindE (loss_cls self ?preds d) (\<lambda>l. imul l (rsub 1 ?wm))) (\<lambda>cls_loss.
      bindE (tensor_add cls_loss bg_loss) (\<lambda>total.
      bindE (get_pricsion_recall_f1 (num_classes self) ?preds d) (\<lambda>(p, r, f1).
      Inr \<lparr>loss = torch_mean total, fgnd = cls_loss, bgnd = bg_loss,
            P = p, R = r, F1 = f1\<rparr>)))))"
    unfolding lossFunction_def perm bindE.simps w Let_def
    by (simp add: bindE_assoc)
  have terms: "bindE (bindE (loss_bg self ?preds d) (\<lambda>l. imul l ?wm)) (\<lambda>bg_loss.
      bindE (bindE (loss_cls self ?preds d) (\<lambda>l. imul l (rsub 1 ?wm))) (\<lambda>cls_loss.
      bindE (tensor_add cls_loss bg_loss) (\<lambda>total.
      bindE (get_pricsion_recall_f1 (num_classes self) ?preds d) (\<lambda>(p, r, f1).
      Inr \<lparr>loss = torch_mean total, fgnd = cls_loss, bgnd = bg_loss,
            P = p, R = r, F1 = f1\<rparr>)))) =
    bindE (get_pricsion_recall_f1 (num_classes self) ?preds d) (\<lambda>(p, r, f1).
      Inr \<lparr>loss = torch_mean
                \<lparr>shape = [B, H, W, ?C],
                   data = (\<lambda>idx.
                     bce_with_logits (cls_weight self) (data ?preds idx) (data d idx) *
                       (1 - data ?wm (broadcast_index [H, W, ?C] idx)) +
                     bce_with_logits 1 (data ?preds idx) (data d idx) *
                       data ?wm (broadcast_index [H, W, ?C] idx))\<rparr>,
              fgnd = \<lparr>shape = [B, H, W, ?C],
                   data = (\<lambda>idx.
                     bce_with_logits (cls_weight self) (data ?preds idx) (data d idx) *
                       (1 - data ?wm (broadcast_index [H, W, ?C] idx)))\<rparr>,
              bgnd = \<lparr>shape = [B, H, W, ?C],
                   data = (\<lambda>idx.
                     bce_with_logits 1 (data ?preds idx) (data d idx) *
                       data ?wm (broadcast_index [H, W, ?C] idx))\<rparr>,
              P = p, R = r, F1 = f1\<rparr>)"
    if d: "shape d = [B, H, W, ?C]" for d
  proof -
    have p: "shape ?preds = [B, H, W, ?C]" by simp
    show ?thesis
      unfolding loss_bg_def loss_cls_def
        loss_terms(1)[OF p d refl, of None] loss_terms(2)[OF p d refl, of "Some (cls_weight self)"]
        bindE.simps
      by (simp add: tensor_add_def)
  qed
  show ?thesis
  proof
    assume "lossFunction self pred_maps target = Inr res"
    then obtain d where d: "build_target ?preds target = Inr d"
      and rest: "bindE (bindE (loss_bg self ?preds d) (\<lambda>l. imul l ?wm)) (\<lambda>bg_loss.
      bindE (bindE (loss_cls self ?preds d) (\<lambda>l. imul l (rsub 1 ?wm))) (\<lambda>cls_loss.
      bindE (tensor_add cls_loss bg_loss) (\<lambda>total.
      bindE (get_pricsion_recall_f1 (num_classes self) ?preds d) (\<lambda>(p, r, f1).
      Inr \<lparr>loss = torch_mean total, fgnd = cls_loss, bgnd = bg_loss,
            P = p, R = r, F1 = f1\<rparr>)))) = Inr res"
      unfolding body by (auto simp: bindE_Inr_iff)
    from build_target_shape[OF d] have sd: "shape d = [B, H, W, ?C]" by simp
    from rest[unfolded terms[OF sd]] obtain p r f1 where
      "get_pricsion_recall_f1 (num_classes self) ?preds d = Inr (p, r, f1)"
      and "res = \<lparr>loss = torch_mean
                \<lparr>shape = [B, H, W, ?C],
                   data = (\<lambda>idx.
                     bce_with_logits (cls_weight self) (data ?preds idx) (data d idx) *
                       (1 - data ?wm (broadcast_index [H, W, ?C] idx)) +
                     bce_with_logits 1 (data ?preds idx) (data d idx) *
                       data ?wm (broadcast_index [H, W, ?C] idx))\<rparr>,
              fgnd = \<lparr>shape = [B, H, W, ?C],
                   data = (\<lambda>idx.
                     bce_with_logits (cls_weight self) (data ?preds idx) (data d idx) *
                       (1 - data ?wm (broadcast_index [H, W, ?C] idx)))\<rparr>,
              bgnd = \<lparr>shape = [B, H, W, ?C],
                   data = (\<lambda>idx.
                     bce_with_logits 1 (data ?preds idx) (data d idx) *
                       data ?wm (broadcast_index [H, W, ?C] idx))\<rparr>,
              P = p, R = r, F1 = f1\<rparr>"
      by (auto simp: bindE_Inr_iff)
    with perm d show "\<exists>preds d wm p r f1.
       permute_0231 pred_maps = Inr preds \<and> shape preds = [B, H, W, num_classes self + 1] \<and>
       build_target preds target = Inr d \<and>
       wm = tile_HW1 \<lparr>shape = [num_classes self + 1], data = (\<lambda>_. 0)([0] := 1)\<rparr> H W \<and>
       get_pricsion_recall_f1 (num_classes self) preds d = Inr (p, r, f1) \<and>
       res = \<lparr>loss = torch_mean
                \<lparr>shape = [B, H, W, num_classes self + 1],
                   data = (\<lambda>idx.
                     bce_with_logits (cls_weight self) (data preds idx) (data d idx) *
                       (1 - data wm (broadcast_index [H, W, num_classes self + 1] idx)) +
                     bce_with_logits 1 (data preds idx) (data d idx) *
                       data wm (broadcast_index [H, W, num_classes self + 1] idx))\<rparr>,
              fgnd = \<lparr>shape = [B, H, W, num_classes self + 1],
                   data = (\<lambda>idx.
                     bce_with_logits (cls_weight self) (data preds idx) (data d idx) *
                       (1 - data wm (broadcast_index [H, W, num_classes self + 1] idx)))\<rparr>,
              bgnd = \<lparr>shape = [B, H, W, num_classes self + 1],
                   data = (\<lambda>idx.
                     bce_with_logits 1 (data preds idx) (data d idx) *
                       data wm (broadcast_index [H, W, num_classes self + 1] idx))\<rparr>,
              P = p, R = r, F1 = f1\<rparr>"
      by (intro exI[of _ ?preds] exI[of _ d] exI[of _ ?wm] exI[of _ p] exI[of _ r] exI[of _ f1]) simp
  next
    assume "\<exists>preds d wm p r f1.
       permute_0231 pred_maps = Inr preds \<and> shape preds = [B, H, W, num_classes self + 1] \<and>
       build_target preds target = Inr d \<and>
       wm = tile_HW1 \<lparr>shape = [num_classes self + 1], data = (\<lambda>_. 0)([0] := 1)\<rparr> H W \<and>
       get_pricsion_recall_f1 (num_classes self) preds d = Inr (p, r, f1) \<and>
       res = \<lparr>loss = torch_mean
                \<lparr>shape = [B, H, W, num_classes self + 1],
                   data = (\<lambda>idx.
                     bce_with_logits (cls_weight self) (data preds idx) (data d idx) *
                       (1 - data wm (broadcast_index [H, W, num_classes self + 1] idx)) +
                     bce_with_logits 1 (data preds idx) (data d idx) *
                       data wm (broadcast_index [H, W, num_classes self + 1] idx))\<rparr>,
              fgnd = \<lparr>shape = [B, H, W, num_classes self + 1],
                   data = (\<lambda>idx.
                     bce_with_logits (cls_weight self) (data preds idx) (data d idx) *
                       (1 - data wm (broadcast_index [H, W, num_classes self + 1] idx)))\<rparr>,
              bgnd = \<lparr>shape = [B, H, W, num_classes self + 1],
                   data = (\<lambda>idx.
                     bce_with_logits 1 (data preds idx) (data d idx) *
                       data wm (broadcast_index [H, W, num_classes self + 1] idx))\<rparr>,
              P = p, R = r, F1 = f1\<rparr>"
    then obtain d p r f1 where d: "build_target ?preds target = Inr d"
      and m: "get_pricsion_recall_f1 (num_classes self) ?preds d = Inr (p, r, f1)"
      and res: "res = \<lparr>loss = torch_mean
                \<lparr>shape = [B, H, W, ?C],
                   data = (\<lambda>idx.
                     bce_with_logits (cls_weight self) (data ?preds idx) (data d idx) *
                       (1 - data ?wm (broadcast_index [H, W, ?C] idx)) +
                     bce_with_logits 1 (data ?preds idx) (data d idx) *
                       data ?wm (broadcast_index [H, W, ?C] idx))\<rparr>,
              fgnd = \<lparr>shape = [B, H, W, ?C],
                   data = (\<lambda>idx.
                     bce_with_logits (cls_weight self) (data ?preds idx) (data d idx) *
                       (1 - data ?wm (broadcast_index [H, W, ?C] idx)))\<rparr>,
              bgnd = \<lparr>shape = [B, H, W, ?C],
                   data = (\<lambda>idx.
                     bce_with_logits 1 (data ?preds idx) (data d idx) *
                       data ?wm (broadcast_index [H, W, ?C] idx))\<rparr>,
              P = p, R = r, F1 = f1\<rparr>"
      unfolding perm by auto
    from build_target_shape[OF d] have sd: "shape d = [B, H, W, ?C]" by simp
    have "lossFunction self pred_maps target =
      bindE (get_pricsion_recall_f1 (num_classes self) ?preds d) (\<lambda>(p, r, f1).
      Inr \<lparr>loss = torch_mean
                \<lparr>shape = [B, H, W, ?C],
                   data = (\<lambda>idx.
                     bce_with_logits (cls_weight self) (data ?preds idx) (data d idx) *
                       (1 - data ?wm (broadcast_index [H, W, ?C] idx)) +
                     bce_with_logits 1 (data ?preds idx) (data d idx) *
                       data ?wm (broadcast_index [H, W, ?C] idx))\<rparr>,
              fgnd = \<lparr>shape = [B, H, W, ?C],
                   data = (\<lambda>idx.
                     bce_with_logits (cls_weight self) (data ?preds idx) (data d idx) *
                       (1 - data ?wm (broadcast_index [H, W, ?C] idx)))\<rparr>,
              bgnd = \<lparr>shape = [B, H, W, ?C],
                   data = (\<lambda>idx.
                     bce_with_logits 1 (data ?preds idx) (data d idx) *
                       data ?wm (broadcast_index [H, W, ?C] idx))\<rparr>,
              P = p, R = r, F1 = f1\<rparr>)"
      unfolding body d bindE.simps by (rule terms[OF sd])
    then show "lossFunction self pred_maps target = Inr res"
      unfolding m res by simp
  qed
qed

section \<open>Grids of at least 12 rows and columns\<close>

lemma foldE_invariant:
  assumes "\<And>s x. Q s \<Longrightarrow> x \<in> set xs \<Longrightarrow> \<exists>s'. f s x = Inr s' \<and> Q s'"
    and "Q s"
  shows "\<exists>s'. foldE f s xs = Inr s' \<and> Q s'"
  using assms
proof (induction xs arbitrary: s)
  case Nil
  then show ?case by simp
next
  case (Cons x xs)
  from Cons.prems(1)[OF Cons.prems(2), of x] obtain s1 where
    s1: "f s x = Inr s1" "Q s1" by auto
  have "\<exists>s'. foldE f s1 xs = Inr s' \<and> Q s'"
    by (rule Cons.IH[OF _ s1(2)]) (use Cons.prems(1) in auto)
  then show ?case using s1(1) by simp
qed

lemma match_site_total:
  assumes sh: "shape pm = [B, H, W]" "shape tm = [B, H, W]"
    and rng: "\<And>idx. in_bounds [B, H, W] idx \<Longrightarrow> 0 \<le> data tm idx \<and> data tm idx < int n"
    and big: "12 \<le> H" "12 \<le> W"
    and ti: "in_bounds [B, H, W] cell" and po: "po \<in> set posit_offset"
  shows "\<exists>pm' tm'. match_site pidx (map int cell) (pm, tm) po = Inr (pm', tm') \<and>
           shape pm' = [B, H, W] \<and> shape tm' = [B, H, W] \<and>
           (\<forall>idx. in_bounds [B, H, W] idx \<longrightarrow> 0 \<le> data tm' idx \<and> data tm' idx < int n)"
proof -
  let ?ti = "map int cell"
  let ?site = "map2 (+) ?ti po"
  have len: "length ?ti = length po"
    using ti posit_offset_length[OF po] by (auto simp: in_bounds_def dest: list_all2_lengthD)
  have v: "vec_add ?ti po = Inr ?site" using len by (simp add: vec_add_def)
  have gt: "getitem tm ?ti = Inr (data tm cell)"
    using ti sh by (simp add: getitem_def py_indices_nat)
  show ?thesis
  proof (cases "list_ex (\<lambda>x. x < 0) ?site \<or> list_ex (\<lambda>x. 11 < x) ?site \<or>
                \<not> tensor_contains pidx ?site")
    case True
    then have "match_site pidx ?ti (pm, tm) po = Inr (pm, tm)"
      by (auto simp: match_site_def v)
    then show ?thesis using sh rng by auto
  next
    case False
    then obtain k where k: "py_indices [B, H, W] ?site = Inr k"
      using site_in_grid[OF po ti big] by auto
    have gp: "getitem pm ?site = Inr (data pm k)" using k sh by (simp add: getitem_def)
    show ?thesis
    proof (cases "data pm k = data tm cell")
      case ne: False
      then have "match_site pidx ?ti (pm, tm) po = Inr (pm, tm)"
        using False by (simp add: match_site_def v gp gt)
      then show ?thesis using sh rng by auto
    next
      case True
      have "match_site pidx ?ti (pm, tm) po =
              Inr (pm\<lparr>data := (data pm)(k := data tm cell)\<rparr>,
                   tm\<lparr>data := (data tm)(k := data tm cell)\<rparr>)"
        using False True k sh by (simp add: match_site_def v gp gt setitem_def)
      then show ?thesis using sh rng[OF ti] rng by auto
    qed
  qed
qed

lemma tolerant_matching_total:
  assumes sh: "shape pm = [B, H, W]" "shape tm = [B, H, W]"
    and rng: "\<And>idx. in_bounds [B, H, W] idx \<Longrightarrow> 0 \<le> data tm idx \<and> data tm idx < int n"
    and big: "12 \<le> H" "12 \<le> W"
  shows "\<exists>pm' tm'. tolerant_matching pm tm = Inr (pm', tm') \<and>
           shape pm' = [B, H, W] \<and> shape tm' = [B, H, W] \<and>
           (\<forall>idx. in_bounds [B, H, W] idx \<longrightarrow> 0 \<le> data tm' idx \<and> data tm' idx < int n)"
proof -
  let ?Q = "\<lambda>st. shape (fst st) = [B, H, W] \<and> shape (snd st) = [B, H, W] \<and>
           (\<forall>idx. in_bounds [B, H, W] idx \<longrightarrow> 0 \<le> data (snd st) idx \<and> data (snd st) idx < int n)"
  have site: "\<exists>s'. match_site pidx ti s po = Inr s' \<and> ?Q s'"
    if "?Q s" "ti \<in> set (where_positive tm)" "po \<in> set posit_offset" for pidx ti s po
  proof -
    from where_positive_member[OF that(2)] sh obtain cell where
      cell: "ti = map int cell" "in_bounds [B, H, W] cell" by auto
    obtain a b where s: "s = (a, b)" by (cases s)
    from match_site_total[of a B H W b n cell po pidx] that(1,3) big cell(2) s
    show ?thesis unfolding cell(1) s by auto
  qed
  have cell: "\<exists>s'. match_cell pidx s ti = Inr s' \<and> ?Q s'"
    if "?Q s" "ti \<in> set (where_positive tm)" for pidx ti s
    unfolding match_cell_def
    by (rule foldE_invariant[where Q = ?Q, OF _ that(1)]) (rule site[OF _ that(2)])
  have "\<exists>s'. foldE (match_cell (where_positive pm)) (pm, tm) (where_positive tm) = Inr s' \<and> ?Q s'"
    by (rule foldE_invariant[where Q = ?Q]) (use cell sh rng in auto)
  then show ?thesis
    unfolding tolerant_matching_def Let_def by auto
qed

lemma metrics_of_grids_total:
  assumes sh: "shape pm = [B, H, W]" "shape tm = [B, H, W]"
    and rng: "\<And>idx. in_bounds [B, H, W] idx \<Longrightarrow> 0 \<le> data tm idx \<and> data tm idx < int (nc + 1)"
    and big: "12 \<le> H" "12 \<le> W"
  shows "\<exists>m. metrics_of_grids nc pm tm = Inr m"
proof -
  from tolerant_matching_total[OF sh rng big] obtain pm' tm' where
    m: "tolerant_matching pm tm = Inr (pm', tm')"
    and sh': "shape pm' = [B, H, W]" "shape tm' = [B, H, W]"
    and rng': "\<And>idx. in_bounds [B, H, W] idx \<Longrightarrow> 0 \<le> data tm' idx \<and> data tm' idx < int (nc + 1)"
    by blast
  have "\<exists>c. confusion_matrix (flatten tm') (flatten pm') (map int [0..<nc + 1]) = Inr c"
  proof (cases "indices [B, H, W] = []")
    case True
    then show ?thesis by (intro confusion_matrix_empty[OF _ sh'(2) sh'(1)]) simp_all
  next
    case False
    then obtain a where "a \<in> set (indices [B, H, W])" by (meson last_in_set)
    then have a: "in_bounds [B, H, W] a" unfolding set_indices by simp
    from rng'[OF a] show ?thesis
      by (intro confusion_matrix_ok[OF sh'(2) sh'(1) a]) simp_all
  qed
  then obtain c where "confusion_of_grids nc pm tm = Inr c"
    using m by (auto simp: confusion_of_grids_def num_attrib_def)
  then have "metrics_of_grids nc pm tm = Inr (spec_metrics (nc + 1) c)"
    by (simp add: metrics_of_grids_spec)
  then show ?thesis by blast
qed

lemma get_pricsion_recall_f1_total:
  assumes "shape preds = [B, H, W, nc + 1]" and "shape target = [B, H, W, nc + 1]"
    and "12 \<le> H" and "12 \<le> W"
  shows "\<exists>m. get_pricsion_recall_f1 nc preds target = Inr m"
proof -
  let ?tm = "\<lparr>shape = [B, H, W], data = (\<lambda>idx. int (argmax_list (cell_vector target idx)))\<rparr>"
  let ?pm = "\<lparr>shape = [B, H, W],
               data = (\<lambda>idx. int (argmax_list (cell_vector (softmax_last preds) idx)))\<rparr>"
  have t: "argmax_last target = Inr ?tm"
    using assms(2) argmax_last_Inr[of target "[B, H, W]" "nc + 1"] by simp
  have "shape (softmax_last preds) = [B, H, W] @ [nc + 1]"
    using assms(1) by (simp add: softmax_last_def)
  then have p: "argmax_last (softmax_last preds) = Inr ?pm"
    using argmax_last_Inr[of "softmax_last preds" "[B, H, W]" "nc + 1"] by simp
  have g: "get_pricsion_recall_f1 nc preds target = metrics_of_grids nc ?pm ?tm"
    by (simp add: get_pricsion_recall_f1_def t p)
  have less: "0 \<le> data ?tm idx \<and> data ?tm idx < int (nc + 1)" for idx
    using argmax_cell_less[of target idx] assms(2) by simp
  show ?thesis
    unfolding g by (rule metrics_of_grids_total[OF _ _ less assms(3,4)]) simp_all
qed

lemma build_target_total:
  assumes "shape preds = [B, H, W, C]" and "0 < H" and "0 < W" and "0 < C"
    and "\<forall>i\<in>set targets. valid_label B C i \<and> exact_products H W i"
  shows "\<exists>g. build_target preds targets = Inr g"
proof -
  let ?td = "\<lparr>shape = [B, H, W, C], data = (\<lambda>idx. if last idx = 0 then (1::real) else 0)\<rparr>"
  have "shape ?td = [B, H, W, C]" by simp
  from mark_labels_total[OF this assms(5,2,3)] assms(1,4) show ?thesis
    by (simp add: build_target_eval)
qed

text \<open>The value torch computes is the cross-entropy of its documentation,
  \<open>- (w y ln \<sigma>(x) + (1 - y) ln (1 - \<sigma>(x)))\<close> with \<open>\<sigma>(x) = 1 / (1 + exp (- x))\<close>: the
  positive weight is on the positive term only.\<close>

lemma log_sigmoid_ln: "log_sigmoid x = ln (1 / (1 + exp (- x)))"
proof (cases "0 \<le> x")
  case True
  have "0 < 1 + exp (- x)" by (simp add: add_pos_pos)
  then show ?thesis using True by (simp add: log_sigmoid_def ln_div)
next
  case False
  have p: "0 < exp x + 1" by (simp add: add_pos_pos)
  have "1 / (1 + exp (- x)) = exp x / (exp x + 1)"
    using p by (simp add: exp_minus field_simps)
  then have "ln (1 / (1 + exp (- x))) = ln (exp x) - ln (exp x + 1)"
    using p by (simp add: ln_div)
  then show ?thesis using False by (simp add: log_sigmoid_def add.commute)
qed

lemma ln_one_minus_sigmoid:
  "ln (1 - 1 / (1 + exp (- x))) = - x + ln (1 / (1 + exp (- x)))" for x :: real
proof -
  have p: "0 < 1 + exp (- x)" by (simp add: add_pos_pos)
  have "1 - 1 / (1 + exp (- x)) = exp (- x) / (1 + exp (- x))"
    using p by (simp add: field_simps)
  then have "ln (1 - 1 / (1 + exp (- x))) = ln (exp (- x)) - ln (1 + exp (- x))"
    using p by (simp add: ln_div)
  then show ?thesis using p by (simp add: ln_div)
qed

lemma bce_with_logits_formula:
  "bce_with_logits w x y =
     - (w * y * ln (1 / (1 + exp (- x))) + (1 - y) * ln (1 - 1 / (1 + exp (- x))))"
  unfolding bce_with_logits_def log_sigmoid_ln ln_one_minus_sigmoid
  by (simp add: algebra_simps)

text \<open>
  C4: for a prediction map with \<open>num_classes + 1\<close> channels, \<open>lossFunction\<close> returns exactly
  when the target can be built and the metrics can be computed, and then, with \<open>x\<close> the
  logit and \<open>y\<close> the target of an element and \<open>\<sigma>(x) = 1 / (1 + exp (- x))\<close>: \<open>bgnd\<close> is the
  cross-entropy \<open>- (y ln \<sigma>(x) + (1 - y) ln (1 - \<sigma>(x)))\<close> times the mask that is 1 on
  channel 0 and 0 elsewhere, \<open>fgnd\<close> is the cross-entropy
  \<open>- (cls_weight y ln \<sigma>(x) + (1 - y) ln (1 - \<sigma>(x)))\<close>, the weight on the positive term
  only, times one minus that mask, \<open>loss\<close> is the mean over all elements of
  \<open>fgnd + bgnd\<close>, and \<open>P\<close>, \<open>R\<close>, \<open>F1\<close> are the metrics of the same map and grid.
  On a grid of at least 12 rows and columns it returns for every sequence of well-formed
  labels whose products are exact.
\<close>

theorem loss_is_mean_of_terms:
  assumes "shape pred_maps = [B, num_classes self + 1, H, W]"
  shows "((\<exists>res. lossFunction self pred_maps target = Inr res) \<longleftrightarrow>
          (\<exists>preds d m. permute_0231 pred_maps = Inr preds \<and> build_target preds target = Inr d \<and>
             get_pricsion_recall_f1 (num_classes self) preds d = Inr m)) \<and>
         (\<forall>res. lossFunction self pred_maps target = Inr res \<longrightarrow>
          (\<exists>preds d.
             permute_0231 pred_maps = Inr preds \<and> build_target preds target = Inr d \<and>
             get_pricsion_recall_f1 (num_classes self) preds d = Inr (P res, R res, F1 res) \<and>
             shape (bgnd res) = [B, H, W, num_classes self + 1] \<and>
             shape (fgnd res) = [B, H, W, num_classes self + 1] \<and>
             (\<forall>idx. in_bounds [B, H, W, num_classes self + 1] idx \<longrightarrow>
                data preds idx = data pred_maps [idx ! 0, idx ! 3, idx ! 1, idx ! 2] \<and>
                data (bgnd res) idx =
                  - (data d idx * ln (1 / (1 + exp (- data preds idx))) +
                     (1 - data d idx) * ln (1 - 1 / (1 + exp (- data preds idx)))) *
                  (if last idx = 0 then 1 else 0) \<and>
                data (fgnd res) idx =
                  - (cls_weight self * data d idx * ln (1 / (1 + exp (- data preds idx))) +
                     (1 - data d idx) * ln (1 - 1 / (1 + exp (- data preds idx)))) *
                  (1 - (if last idx = 0 then 1 else 0))) \<and>
             loss res =
               spec_mean B H W (num_classes self + 1)
                 (\<lambda>idx. data (fgnd res) idx + data (bgnd res) idx))) \<and>
         (12 \<le> H \<and> 12 \<le> W \<and>
          (\<forall>i\<in>set target. valid_label B (num_classes self + 1) i \<and> exact_products H W i) \<longrightarrow>
          (\<exists>res. lossFunction self pred_maps target = Inr res))"
proof (intro conjI allI impI)
  show "(\<exists>res. lossFunction self pred_maps target = Inr res) \<longleftrightarrow>
          (\<exists>preds d m. permute_0231 pred_maps = Inr preds \<and> build_target preds target = Inr d \<and>
             get_pricsion_recall_f1 (num_classes self) preds d = Inr m)"
    unfolding lossFunction_Inr[OF assms] by (auto simp: permute_0231_def assms)
next
  assume big: "12 \<le> H \<and> 12 \<le> W \<and>
    (\<forall>i\<in>set target. valid_label B (num_classes self + 1) i \<and> exact_products H W i)"
  let ?preds = "\<lparr>shape = [B, H, W, num_classes self + 1],
                 data = (\<lambda>idx. data pred_maps [idx ! 0, idx ! 3, idx ! 1, idx ! 2])\<rparr>"
  have perm: "permute_0231 pred_maps = Inr ?preds"
    using assms by (simp add: permute_0231_def)
  have sp: "shape ?preds = [B, H, W, num_classes self + 1]" by simp
  from build_target_total[OF sp, of target] big obtain d where
    d: "build_target ?preds target = Inr d" by auto
  from build_target_shape[OF d] have sd: "shape d = [B, H, W, num_classes self + 1]" by simp
  from get_pricsion_recall_f1_total[OF sp sd] big obtain m where
    "get_pricsion_recall_f1 (num_classes self) ?preds d = Inr m" by blast
  with perm d have "\<exists>preds d m. permute_0231 pred_maps = Inr preds \<and>
      build_target preds target = Inr d \<and>
      get_pricsion_recall_f1 (num_classes self) preds d = Inr m" by blast
  then show "\<exists>res. lossFunction self pred_maps target = Inr res"
    unfolding lossFunction_Inr[OF assms] by (auto simp: permute_0231_def assms)
next
  fix res
  assume "lossFunction self pred_maps target = Inr res"
  then obtain preds d wm p r f1 where
    perm: "permute_0231 pred_maps = Inr preds"
    and d: "build_target preds target = Inr d"
    and wm: "wm = tile_HW1 \<lparr>shape = [num_classes self + 1], data = (\<lambda>_. 0)([0] := 1)\<rparr> H W"
    and m: "get_pricsion_recall_f1 (num_classes self) preds d = Inr (p, r, f1)"
    and res: "res = \<lparr>loss = torch_mean
                \<lparr>shape = [B, H, W, num_classes self + 1],
                   data = (\<lambda>idx.
                     bce_with_logits (cls_weight self) (data preds idx) (data d idx) *
                       (1 - data wm (broadcast_index [H, W, num_classes self + 1] idx)) +
                     bce_with_logits 1 (data preds idx) (data d idx) *
                       data wm (broadcast_index [H, W, num_classes self + 1] idx))\<rparr>,
              fgnd = \<lparr>shape = [B, H, W, num_classes self + 1],
                   data = (\<lambda>idx.
                     bce_with_logits (cls_weight self) (data preds idx) (data d idx) *
                       (1 - data wm (broadcast_index [H, W, num_classes self + 1] idx)))\<rparr>,
              bgnd = \<lparr>shape = [B, H, W, num_classes self + 1],
                   data = (\<lambda>idx.
                     bce_with_logits 1 (data preds idx) (data d idx) *
                       data wm (broadcast_index [H, W, num_classes self + 1] idx))\<rparr>,
              P = p, R = r, F1 = f1\<rparr>"
    unfolding lossFunction_Inr[OF assms] by blast
  have mv: "data wm (broadcast_index [H, W, num_classes self + 1] idx) =
      (if last idx = 0 then 1 else 0)"
    if "in_bounds [B, H, W, num_classes self + 1] idx" for idx
    unfolding wm by (rule mask_value[OF that])
  have pv: "data preds idx = data pred_maps [idx ! 0, idx ! 3, idx ! 1, idx ! 2]" for idx
    using perm assms by (auto simp: permute_0231_def)
  have "loss res = spec_mean B H W (num_classes self + 1)
                 (\<lambda>idx. data (fgnd res) idx + data (bgnd res) idx)"
    unfolding res by (simp add: torch_mean_spec)
  moreover have "get_pricsion_recall_f1 (num_classes self) preds d = Inr (P res, R res, F1 res)"
    unfolding res using m by simp
  moreover have "data preds idx = data pred_maps [idx ! 0, idx ! 3, idx ! 1, idx ! 2] \<and>
                data (bgnd res) idx =
                  - (data d idx * ln (1 / (1 + exp (- data preds idx))) +
                     (1 - data d idx) * ln (1 - 1 / (1 + exp (- data preds idx)))) *
                  (if last idx = 0 then 1 else 0) \<and>
                data (fgnd res) idx =
                  - (cls_weight self * data d idx * ln (1 / (1 + exp (- data preds idx))) +
                     (1 - data d idx) * ln (1 - 1 / (1 + exp (- data preds idx)))) *
                  (1 - (if last idx = 0 then 1 else 0))"
    if b: "in_bounds [B, H, W, num_classes self + 1] idx" for idx
  proof -
    have bg: "data (bgnd res) idx = bce_with_logits 1 (data preds idx) (data d idx) *
        (if last idx = 0 then 1 else 0)"
      unfolding res using mv[OF b] by simp
    have fg: "data (fgnd res) idx =
        bce_with_logits (cls_weight self) (data preds idx) (data d idx) *
        (1 - (if last idx = 0 then 1 else 0))"
      unfolding res using mv[OF b] by simp
    show ?thesis
      unfolding bg fg bce_with_logits_formula using pv by simp
  qed
  moreover have "shape (bgnd res) = [B, H, W, num_classes self + 1]"
    "shape (fgnd res) = [B, H, W, num_classes self + 1]"
    unfolding res by simp_all
  ultimately show "\<exists>preds d.
             permute_0231 pred_maps = Inr preds \<and> build_target preds target = Inr d \<and>
             get_pricsion_recall_f1 (num_classes self) preds d = Inr (P res, R res, F1 res) \<and>
             shape (bgnd res) = [B, H, W, num_classes self + 1] \<and>
             shape (fgnd res) = [B, H, W, num_classes self + 1] \<and>
             (\<forall>idx. in_bounds [B, H, W, num_classes self + 1] idx \<longrightarrow>
                data preds idx = data pred_maps [idx ! 0, idx ! 3, idx ! 1, idx ! 2] \<and>
                data (bgnd res) idx =
                  - (data d idx * ln (1 / (1 + exp (- data preds idx))) +
                     (1 - data d idx) * ln (1 - 1 / (1 + exp (- data preds idx)))) *
                  (if last idx = 0 then 1 else 0) \<and>
                data (fgnd res) idx =
                  - (cls_weight self * data d idx * ln (1 / (1 + exp (- data preds idx))) +
                     (1 - data d idx) * ln (1 - 1 / (1 + exp (- data preds idx)))) *
                  (1 - (if last idx = 0 then 1 else 0))) \<and>
             loss res =
               spec_mean B H W (num_classes self + 1)
                 (\<lambda>idx. data (fgnd res) idx + data (bgnd res) idx)"
    using perm d by blast
qed

lemma loss_example_metrics:
  "get_pricsion_recall_f1 2
     \<lparr>shape = [1, 1, 1, 3],
        data = (\<lambda>idx. if idx ! 3 = 0 then 2 else if idx ! 3 = 1 then - 1 else (1 / 2 :: real))\<rparr>
     \<lparr>shape = [1, 1, 1, 3],
        data = (\<lambda>idx. if last idx = 0 then 1 else (0::real))
          ([0, 0, 0, 0] := 0, [0, 0, 0, 1] := 1)\<rparr> = Inr (0, 0, 0)"
proof -
  let ?preds = "\<lparr>shape = [1, 1, 1, 3],
        data = (\<lambda>idx. if idx ! 3 = 0 then 2 else if idx ! 3 = 1 then - 1 else (1 / 2 :: real))\<rparr>"
  let ?d = "\<lparr>shape = [1, 1, 1, 3],
        data = (\<lambda>idx. if last idx = 0 then 1 else (0::real))
          ([0, 0, 0, 0] := 0, [0, 0, 0, 1] := 1)\<rparr>"
  define pm where "pm = \<lparr>shape = [1, 1, 1], data = (\<lambda>idx. int (argmax_list (cell_vector ?preds idx)))\<rparr>"
  define tm where "tm = \<lparr>shape = [1, 1, 1], data = (\<lambda>idx. int (argmax_list (cell_vector ?d idx)))\<rparr>"
  have p: "argmax_last ?preds = Inr pm"
    by (simp add: pm_def argmax_last_def)
  have t: "argmax_last ?d = Inr tm"
    by (simp add: tm_def argmax_last_def)
  have sh: "shape pm = [1, 1, 1]" "shape tm = [1, 1, 1]" by (simp_all add: pm_def tm_def)
  have b: "in_bounds [1, 1, 1] [0, 0, 0]" by (simp add: in_bounds_def)
  have only: "idx = [0, 0, 0]" if "in_bounds [1, 1, 1] idx" for idx
    using that by (auto simp: in_bounds_def list_all2_Cons2)
  have tv: "data tm [0, 0, 0] = 1"
    by (simp add: tm_def cell_vector_def upt_0_3 argmax_list_def)
  have pv: "data pm [0, 0, 0] = 0"
    by (simp add: pm_def cell_vector_def upt_0_3 argmax_list_def)
  have wp: "where_positive pm = []"
  proof (rule where_positive_none)
    fix idx
    assume "in_bounds (shape pm) idx"
    then have "idx = [0, 0, 0]" using only sh by simp
    then show "data pm idx \<le> 0" using pv by simp
  qed
  have wt: "where_positive tm = [map int [0, 0, 0]]"
  proof (rule where_positive_single)
    show "in_bounds (shape tm) [0, 0, 0]" using b sh by simp
    fix idx
    assume "in_bounds (shape tm) idx"
    then have "idx = [0, 0, 0]" using only sh by simp
    then show "0 < data tm idx \<longleftrightarrow> idx = [0, 0, 0]" using tv by simp
  qed
  have m: "tolerant_matching pm tm = Inr (pm, tm)"
    unfolding tolerant_matching_def Let_def wp wt
    by (simp add: match_cell_def posit_offset_def match_site_def vec_add_def tensor_contains_def)
  from metrics_of_matched[OF m sh(2) sh(1) b, of 2] tv obtain c where
    c: "metrics_of_grids 2 pm tm = Inr (spec_metrics (2 + 1) c)"
    and tp: "spec_tp (2 + 1) c =
      count_cells [1, 1, 1] (\<lambda>idx. data tm idx = data pm idx \<and> 0 < data tm idx \<and> data tm idx < int (2 + 1))"
    and fp: "spec_fp (2 + 1) c =
      count_cells [1, 1, 1] (\<lambda>idx. 0 \<le> data tm idx \<and> data tm idx < data pm idx \<and> data pm idx < int (2 + 1))"
    by auto
  have "spec_tp (2 + 1) c = 0"
    unfolding tp count_cells_zero using only pv tv by auto
  moreover have "spec_fp (2 + 1) c = 0"
    unfolding fp count_cells_zero using only pv tv by auto
  ultimately have "metrics_of_grids 2 pm tm = Inr (0, 0, 0)"
    using c by (simp add: spec_metrics_no_positive)
  then show ?thesis
    unfolding get_pricsion_recall_f1_def Let_def argmax_last_softmax t p by simp
qed

lemma spec_mean_1113:
  "spec_mean 1 1 1 3 f = Float ((f [0, 0, 0, 0] + f [0, 0, 0, 1] + f [0, 0, 0, 2]) / 3)"
  by (simp add: spec_mean_def numeral_3_eq_3 numeral_2_eq_2)

theorem loss_is_mean_of_terms_witness:
  "shape \<lparr>shape = [1, 3, 1, 1],
      data = (\<lambda>idx. if idx ! 1 = 0 then 2 else if idx ! 1 = 1 then - 1 else (1 / 2 :: real))\<rparr> =
     [1, num_classes \<lparr>num_classes = 2, cls_weight = 3\<rparr> + 1, 1, 1] \<and>
   (\<exists>res. lossFunction \<lparr>num_classes = 2, cls_weight = 3\<rparr>
            \<lparr>shape = [1, 3, 1, 1],
               data = (\<lambda>idx. if idx ! 1 = 0 then 2 else if idx ! 1 = 1 then - 1 else 1 / 2)\<rparr>
            [\<lparr>image_index = 0, class_id = 1, x_fraction = 1 / 2, y_fraction = 1 / 2\<rparr>] = Inr res \<and>
          data (bgnd res) [0, 0, 0, 0] = - ln (1 - 1 / (1 + exp (- 2))) \<and>
          data (bgnd res) [0, 0, 0, 1] = 0 \<and>
          data (bgnd res) [0, 0, 0, 2] = 0 \<and>
          data (fgnd res) [0, 0, 0, 0] = 0 \<and>
          data (fgnd res) [0, 0, 0, 1] = - (3 * ln (1 / (1 + exp 1))) \<and>
          data (fgnd res) [0, 0, 0, 2] = - ln (1 - 1 / (1 + exp (- (1 / 2)))) \<and>
          loss res = Float ((- ln (1 - 1 / (1 + exp (- 2))) - 3 * ln (1 / (1 + exp 1))
                             - ln (1 - 1 / (1 + exp (- (1 / 2))))) / 3) \<and>
          P res = 0 \<and> R res = 0 \<and> F1 res = 0) \<and>
   valid_label 1 (num_classes \<lparr>num_classes = 2, cls_weight = 3\<rparr> + 1)
     \<lparr>image_index = 0, class_id = 1, x_fraction = 1 / 2, y_fraction = 1 / 2\<rparr> \<and>
   exact_products 12 12
     \<lparr>image_index = 0, class_id = 1, x_fraction = 1 / 2, y_fraction = 1 / 2\<rparr> \<and>
   (\<exists>res. lossFunction \<lparr>num_classes = 2, cls_weight = 3\<rparr>
            \<lparr>shape = [1, 3, 12, 12],
               data = (\<lambda>idx. if idx ! 1 = 0 then 2 else if idx ! 1 = 1 then - 1 else 1 / 2)\<rparr>
            [\<lparr>image_index = 0, class_id = 1, x_fraction = 1 / 2, y_fraction = 1 / 2\<rparr>] = Inr res)"
proof -
  let ?self = "\<lparr>num_classes = 2, cls_weight = 3\<rparr>"
  let ?pm = "\<lparr>shape = [1, 3, 1, 1],
      data = (\<lambda>idx. if idx ! 1 = 0 then 2 else if idx ! 1 = 1 then - 1 else (1 / 2 :: real))\<rparr>"
  let ?L = "\<lparr>image_index = 0, class_id = 1, x_fraction = 1 / 2, y_fraction = 1 / 2\<rparr>"
  let ?T = "[?L]"
  let ?preds = "\<lparr>shape = [1, 1, 1, 3],
        data = (\<lambda>idx. if idx ! 3 = 0 then 2 else if idx ! 3 = 1 then - 1 else (1 / 2 :: real))\<rparr>"
  let ?d = "\<lparr>shape = [1, 1, 1, 3],
        data = (\<lambda>idx. if last idx = 0 then 1 else (0::real))
          ([0, 0, 0, 0] := 0, [0, 0, 0, 1] := 1)\<rparr>"
  have sh: "shape ?pm = [1, num_classes ?self + 1, 1, 1]" by simp
  have perm: "permute_0231 ?pm = Inr ?preds" by (simp add: permute_0231_def cong: if_cong)
  have c: "label_cell [1, 1, 1, 3] ?L = Inr [0, 0, 0]"
    by (simp add: label_cell_def float64_mul_eval[of _ _ "- 1"] round_half_even_def py_index_def
        py_int_def)
  have k: "py_index 3 (py_int (class_id ?L)) = Inr 1"
    by (simp add: py_index_def py_int_def)
  have bt: "build_target ?preds ?T = Inr ?d"
    using build_target_one_label[OF _ c k, of ?preds] by simp
  have m: "get_pricsion_recall_f1 2 ?preds ?d = Inr (0, 0, 0)"
    by (rule loss_example_metrics)
  note lm = loss_is_mean_of_terms[OF sh, of ?T]
  have "\<exists>preds d m. permute_0231 ?pm = Inr preds \<and> build_target preds ?T = Inr d \<and>
             get_pricsion_recall_f1 (num_classes ?self) preds d = Inr m"
    using perm bt m by (intro exI[of _ ?preds] exI[of _ ?d] exI[of _ "(0, 0, 0)"]) simp
  then have "\<exists>res. lossFunction ?self ?pm ?T = Inr res"
    by (rule iffD2[OF conjunct1[OF lm]])
  then obtain res where res: "lossFunction ?self ?pm ?T = Inr res" by blast
  from conjunct1[OF conjunct2[OF lm], rule_format, OF res] obtain preds d where
    1: "permute_0231 ?pm = Inr preds" "build_target preds ?T = Inr d"
    and 2: "get_pricsion_recall_f1 (num_classes ?self) preds d = Inr (P res, R res, F1 res)"
    and 3: "\<And>idx. in_bounds [1, 1, 1, num_classes ?self + 1] idx \<Longrightarrow>
                data preds idx = data ?pm [idx ! 0, idx ! 3, idx ! 1, idx ! 2] \<and>
                data (bgnd res) idx =
                  - (data d idx * ln (1 / (1 + exp (- data preds idx))) +
                     (1 - data d idx) * ln (1 - 1 / (1 + exp (- data preds idx)))) *
                  (if last idx = 0 then 1 else 0) \<and>
                data (fgnd res) idx =
                  - (cls_weight ?self * data d idx * ln (1 / (1 + exp (- data preds idx))) +
                     (1 - data d idx) * ln (1 - 1 / (1 + exp (- data preds idx)))) *
                  (1 - (if last idx = 0 then 1 else 0))"
    and 4: "loss res = spec_mean 1 1 1 (num_classes ?self + 1)
                 (\<lambda>idx. data (fgnd res) idx + data (bgnd res) idx)"
    by blast
  from 1 perm bt have pd: "preds = ?preds" "d = ?d" by simp_all
  from 2 m have zs: "P res = 0" "R res = 0" "F1 res = 0" unfolding pd by simp_all
  have v0: "data (bgnd res) [0, 0, 0, 0] = - ln (1 - 1 / (1 + exp (- 2)))"
      "data (fgnd res) [0, 0, 0, 0] = 0"
    using 3[of "[0, 0, 0, 0]"] unfolding pd by (simp_all add: in_bounds_def)
  have v1: "data (bgnd res) [0, 0, 0, 1] = 0"
      "data (fgnd res) [0, 0, 0, 1] = - (3 * ln (1 / (1 + exp 1)))"
    using 3[of "[0, 0, 0, 1]"] unfolding pd by (simp_all add: in_bounds_def)
  have v2: "data (bgnd res) [0, 0, 0, 2] = 0"
      "data (fgnd res) [0, 0, 0, 2] = - ln (1 - 1 / (1 + exp (- (1 / 2))))"
    using 3[of "[0, 0, 0, 2]"] unfolding pd by (simp_all add: in_bounds_def)
  have l: "loss res = Float ((- ln (1 - 1 / (1 + exp (- 2))) - 3 * ln (1 / (1 + exp 1))
                             - ln (1 - 1 / (1 + exp (- (1 / 2))))) / 3)"
  proof -
    have "loss res = spec_mean 1 1 1 3 (\<lambda>idx. data (fgnd res) idx + data (bgnd res) idx)"
      using 4 by (simp add: numeral_3_eq_3)
    then show ?thesis unfolding spec_mean_1113 v0 v1 v2 by simp
  qed
  let ?big = "\<lparr>shape = [1, 3, 12, 12],
      data = (\<lambda>idx. if idx ! 1 = 0 then 2 else if idx ! 1 = 1 then - 1 else (1 / 2 :: real))\<rparr>"
  have shb: "shape ?big = [1, num_classes ?self + 1, 12, 12]" by simp
  have vl: "valid_label 1 (num_classes ?self + 1) ?L"
    by (simp add: valid_label_def)
  have ex: "exact_products 12 12 ?L"
    by (simp add: exact_products_def float64_mul_eval[of _ _ 2] round_half_even_def)
  from vl ex have "(12::nat) \<le> 12 \<and> (12::nat) \<le> 12 \<and>
      (\<forall>i\<in>set ?T. valid_label 1 (num_classes ?self + 1) i \<and> exact_products 12 12 i)" by simp
  from conjunct2[OF conjunct2[OF loss_is_mean_of_terms[OF shb, of ?T]], rule_format, OF this]
  have tot: "\<exists>res. lossFunction ?self ?big ?T = Inr res" .
  have one: "\<exists>res. lossFunction ?self ?pm ?T = Inr res \<and>
          data (bgnd res) [0, 0, 0, 0] = - ln (1 - 1 / (1 + exp (- 2))) \<and>
          data (bgnd res) [0, 0, 0, 1] = 0 \<and>
          data (bgnd res) [0, 0, 0, 2] = 0 \<and>
          data (fgnd res) [0, 0, 0, 0] = 0 \<and>
          data (fgnd res) [0, 0, 0, 1] = - (3 * ln (1 / (1 + exp 1))) \<and>
          data (fgnd res) [0, 0, 0, 2] = - ln (1 - 1 / (1 + exp (- (1 / 2)))) \<and>
          loss res = Float ((- ln (1 - 1 / (1 + exp (- 2))) - 3 * ln (1 / (1 + exp 1))
                             - ln (1 - 1 / (1 + exp (- (1 / 2))))) / 3) \<and>
          P res = 0 \<and> R res = 0 \<and> F1 res = 0"
    using res zs v0 v1 v2 l by blast
  from sh one vl ex tot show ?thesis by blast
qed

end
